theory Spec2Isabelle
  imports Main
begin

section \<open>Syntax trees consumed by the IR builder\<close>

text \<open>
  Modelled from the spec: the type declarations of the syntax trees (\<^verbatim>\<open>ast.ts\<close>) are
  not among the sources. The records below carry the fields that
  \<^verbatim>\<open>bdl-ts/src/ir-builder.ts\<close> reads, under the names it reads them by (prefixed
  where two records share a field name), optional fields as options. A span is a pair
  of source positions, as the spec has it; every name in a tree is a span into the
  module text.
\<close>

record Span =
  span_start :: nat
  span_end :: nat

record ast_Attribute =
  attr_id :: Span
  attr_content :: "Span option"

record ast_Container =
  keyType :: "Span option"

record ast_TypeExpression =
  valueType :: Span
  container :: "ast_Container option"

record ast_StructField =
  sf_attributes :: "ast_Attribute list"
  sf_name :: Span
  sf_question :: "Span option"
  sf_itemType :: ast_TypeExpression

record ast_EnumItem =
  ei_attributes :: "ast_Attribute list"
  ei_name :: Span

record ast_ImportAlias =
  alias_name :: Span

record ast_ImportItem =
  ii_name :: Span
  ii_alias :: "ast_ImportAlias option"

record ast_RpcError =
  errorType :: ast_TypeExpression

record ast_RpcItem =
  ri_attributes :: "ast_Attribute list"
  ri_name :: Span
  ri_inputType :: ast_TypeExpression
  ri_outputType :: ast_TypeExpression
  ri_error :: "ast_RpcError option"

record ast_SocketItem =
  si_attributes :: "ast_Attribute list"
  sender :: Span
  receiver :: Span
  si_messageType :: ast_TypeExpression

record ast_UnionStruct =
  us_fields :: "ast_StructField list"

record ast_UnionItem =
  ui_attributes :: "ast_Attribute list"
  ui_name :: Span
  ui_struct :: "ast_UnionStruct option"

record ast_Enum =
  enum_attributes :: "ast_Attribute list"
  enum_name :: Span
  enum_items :: "ast_EnumItem list"

record ast_Import =
  import_attributes :: "ast_Attribute list"
  import_path :: "Span list"
  import_items :: "ast_ImportItem list"

record ast_Rpc =
  rpc_attributes :: "ast_Attribute list"
  rpc_name :: Span
  rpc_items :: "ast_RpcItem list"

record ast_Scalar =
  scalar_attributes :: "ast_Attribute list"
  scalar_name :: Span
  scalar_scalarType :: ast_TypeExpression

record ast_Socket =
  socket_attributes :: "ast_Attribute list"
  socket_name :: Span
  socket_items :: "ast_SocketItem list"

record ast_Struct =
  struct_attributes :: "ast_Attribute list"
  struct_name :: Span
  struct_fields :: "ast_StructField list"

record ast_Union =
  union_attributes :: "ast_Attribute list"
  union_name :: Span
  union_items :: "ast_UnionItem list"

text \<open>
  A module-level statement is a union tagged by its \<^verbatim>\<open>type\<close> field, the seven tags
  being the keys of the dispatch table \<^verbatim>\<open>buildDefBodyFns\<close>. Every kind but Import
  carries a \<^verbatim>\<open>name\<close> span: the type guard of \<^verbatim>\<open>defStatements\<close> separates the
  statements that have one, and the spec excludes the imports from them.
\<close>

datatype ModuleLevelStatement =
    EnumStatement ast_Enum
  | ImportStatement ast_Import
  | RpcStatement ast_Rpc
  | ScalarStatement ast_Scalar
  | SocketStatement ast_Socket
  | StructStatement ast_Struct
  | UnionStatement ast_Union

record BdlAst =
  statements :: "ModuleLevelStatement list"
  ast_attributes :: "ast_Attribute list"

section \<open>The intermediate representation\<close>

text \<open>
  The records of the IR are the object literals that the builder returns, field by
  field. A type path is the value that \<^verbatim>\<open>typeNameToPath\<close> returned. Its declared
  type is \<^verbatim>\<open>string\<close>, and \<^verbatim>\<open>typeNameToPath\<close> returns a string on every branch
  but one: \<^verbatim>\<open>importedNames[typeName]\<close> reads a property of an object literal, and
  for a key that the object only inherits the value read is the member of
  \<^verbatim>\<open>Object.prototype\<close> of that name.
\<close>

datatype jsvalue =
    JsString string
  | JsInherited string
  | JsUndefined

record ir_Attribute =
  attribute_id :: string
  attribute_content :: string

datatype Type =
    Plain (valueTypePath: jsvalue)
  | Array (valueTypePath: jsvalue)
  | Dictionary (valueTypePath: jsvalue) (keyTypePath: jsvalue)

record ir_StructField =
  field_attributes :: "ir_Attribute list"
  field_name :: string
  field_itemType :: Type
  field_optional :: bool

record ir_EnumItem =
  enumitem_attributes :: "ir_Attribute list"
  enumitem_name :: string

record ir_RpcItem =
  rpcitem_attributes :: "ir_Attribute list"
  rpcitem_name :: string
  rpcitem_inputType :: Type
  rpcitem_outputType :: Type
  rpcitem_errorType :: "Type option"

record ir_SocketItem =
  socketitem_attributes :: "ir_Attribute list"
  messageType :: Type

record ir_UnionItem =
  unionitem_attributes :: "ir_Attribute list"
  unionitem_name :: string
  unionitem_fields :: "ir_StructField list"

datatype DefBody =
    EnumBody "ir_EnumItem list"
  | RpcBody "ir_RpcItem list"
  | ScalarBody Type
  | SocketBody (serverToClient: "ir_SocketItem option") (clientToServer: "ir_SocketItem option")
  | StructBody "ir_StructField list"
  | UnionBody "ir_UnionItem list"

record ir_Def =
  def_attributes :: "ir_Attribute list"
  def_name :: string
  def_body :: DefBody

record ir_ImportItem =
  item_name :: string
  item_as :: "string option"

record ir_Import =
  imp_attributes :: "ir_Attribute list"
  imp_modulePath :: string
  imp_items :: "ir_ImportItem list"

record ir_Module =
  fileUrl :: "string option"
  module_attributes :: "ir_Attribute list"
  defPaths :: "string list"
  module_imports :: "ir_Import list"

record BdlIr =
  modules :: "string \<rightharpoonup> ir_Module"
  defs :: "string \<rightharpoonup> ir_Def"

section \<open>Collaborators and configuration\<close>

text \<open>
  The helpers imported from \<^verbatim>\<open>ast-utils.ts\<close> and the parser are not among the
  sources; the model takes them as parameters, so every theorem holds whatever they
  compute. The parser and the module-resolution capability may fail: their results are
  sums, the failure on the left, of a type of failures that is a parameter too.
\<close>

record 'e Collaborators =
  span :: "string \<Rightarrow> Span \<Rightarrow> string"
  pathItemsToString :: "string \<Rightarrow> Span list \<Rightarrow> string"
  getAttributeContent :: "string \<Rightarrow> ast_Attribute \<Rightarrow> string"
  getImportPaths :: "string \<Rightarrow> BdlAst \<Rightarrow> string list"
  parseBdl :: "string \<Rightarrow> 'e + BdlAst"

record ResolveModuleFileResult =
  res_fileUrl :: "string option"
  res_text :: string

record 'e BuildBdlIrConfig =
  entryModulePaths :: "string list"
  resolveModuleFile :: "string \<Rightarrow> 'e + ResolveModuleFileResult"

record BuildBdlIrResult =
  asts :: "string \<rightharpoonup> BdlAst"
  ir :: BdlIr

record ModuleFile =
  mf_fileUrl :: "string option"
  mf_text :: string
  mf_modulePath :: string
  mf_ast :: BdlAst

section \<open>Object literals used as dictionaries\<close>

text \<open>
  \<^verbatim>\<open>importedNames\<close>, \<^verbatim>\<open>asts\<close>, \<^verbatim>\<open>ir.modules\<close> and \<^verbatim>\<open>ir.defs\<close> are object
  literals \<^verbatim>\<open>{}\<close> indexed by strings. A map holds the own properties, and an
  assignment \<^verbatim>\<open>o[k] = v\<close> is a map update: the sources import one another by file
  name with the extension \<^verbatim>\<open>.ts\<close>, as modules run by Deno do, and the
  \<^verbatim>\<open>Object.prototype\<close> of Deno has no \<^verbatim>\<open>__proto__\<close> accessor, so that every
  string key is stored as an own property. The operator \<^verbatim>\<open>in\<close> and a property read
  also see the properties that the object inherits from \<^verbatim>\<open>Object.prototype\<close>, whose
  names are listed below.
\<close>

definition objectPrototypeKeys :: "string list" where
  "objectPrototypeKeys =
     [''constructor'', ''hasOwnProperty'', ''isPrototypeOf'', ''propertyIsEnumerable'',
      ''toLocaleString'', ''toString'', ''valueOf'',
      ''__defineGetter__'', ''__defineSetter__'', ''__lookupGetter__'', ''__lookupSetter__'']"

definition js_in :: "string \<Rightarrow> (string \<rightharpoonup> string) \<Rightarrow> bool" where
  "js_in key obj =
     (case obj key of
        Some v \<Rightarrow> True
      | None \<Rightarrow> key \<in> set objectPrototypeKeys)"

definition js_get :: "(string \<rightharpoonup> string) \<Rightarrow> string \<Rightarrow> jsvalue" where
  "js_get obj key =
     (case obj key of
        Some v \<Rightarrow> JsString v
      | None \<Rightarrow> if key \<in> set objectPrototypeKeys then JsInherited key else JsUndefined)"

section \<open>Attributes, types and definition bodies\<close>

definition buildAttribute :: "'e Collaborators \<Rightarrow> string \<Rightarrow> ast_Attribute \<Rightarrow> ir_Attribute" where
  "buildAttribute u text attribute =
     \<lparr>attribute_id = span u text (attr_id attribute),
      attribute_content = getAttributeContent u text attribute\<rparr>"

definition buildAttributes :: "'e Collaborators \<Rightarrow> string \<Rightarrow> ast_Attribute list \<Rightarrow> ir_Attribute list" where
  "buildAttributes u text attributes = map (buildAttribute u text) attributes"

definition buildType ::
  "'e Collaborators \<Rightarrow> string \<Rightarrow> ast_TypeExpression \<Rightarrow> (string \<Rightarrow> jsvalue) \<Rightarrow> Type" where
  "buildType u text type typeNameToPath =
     (case container type of
        None \<Rightarrow> Plain (typeNameToPath (span u text (valueType type)))
      | Some c \<Rightarrow>
          (case keyType c of
             None \<Rightarrow> Array (typeNameToPath (span u text (valueType type)))
           | Some k \<Rightarrow>
               Dictionary (typeNameToPath (span u text (valueType type)))
                 (typeNameToPath (span u text k))))"

definition buildStructField ::
  "'e Collaborators \<Rightarrow> string \<Rightarrow> ast_StructField \<Rightarrow> (string \<Rightarrow> jsvalue) \<Rightarrow> ir_StructField" where
  "buildStructField u text field typeNameToPath =
     \<lparr>field_attributes = buildAttributes u text (sf_attributes field),
      field_name = span u text (sf_name field),
      field_itemType = buildType u text (sf_itemType field) typeNameToPath,
      field_optional = (sf_question field \<noteq> None)\<rparr>"

definition buildEnum :: "'e Collaborators \<Rightarrow> string \<Rightarrow> ast_Enum \<Rightarrow> DefBody" where
  "buildEnum u text statement =
     EnumBody (map (\<lambda>item.
        \<lparr>enumitem_attributes = buildAttributes u text (ei_attributes item),
         enumitem_name = span u text (ei_name item)\<rparr>) (enum_items statement))"

definition buildRpc ::
  "'e Collaborators \<Rightarrow> string \<Rightarrow> ast_Rpc \<Rightarrow> (string \<Rightarrow> jsvalue) \<Rightarrow> DefBody" where
  "buildRpc u text statement typeNameToPath =
     RpcBody (map (\<lambda>item.
        \<lparr>rpcitem_attributes = buildAttributes u text (ri_attributes item),
         rpcitem_name = span u text (ri_name item),
         rpcitem_inputType = buildType u text (ri_inputType item) typeNameToPath,
         rpcitem_outputType = buildType u text (ri_outputType item) typeNameToPath,
         rpcitem_errorType =
           (case ri_error item of
              None \<Rightarrow> None
            | Some err \<Rightarrow> Some (buildType u text (errorType err) typeNameToPath))\<rparr>)
        (rpc_items statement))"

definition buildScalar ::
  "'e Collaborators \<Rightarrow> string \<Rightarrow> ast_Scalar \<Rightarrow> (string \<Rightarrow> jsvalue) \<Rightarrow> DefBody" where
  "buildScalar u text statement typeNameToPath =
     ScalarBody (buildType u text (scalar_scalarType statement) typeNameToPath)"

definition buildSocketItem ::
  "'e Collaborators \<Rightarrow> string \<Rightarrow> ast_SocketItem \<Rightarrow> (string \<Rightarrow> jsvalue) \<Rightarrow> ir_SocketItem" where
  "buildSocketItem u text item typeNameToPath =
     \<lparr>socketitem_attributes = buildAttributes u text (si_attributes item),
      messageType = buildType u text (si_messageType item) typeNameToPath\<rparr>"

text \<open>
  \<^verbatim>\<open>Array.prototype.find\<close> returns the first element satisfying the predicate, or
  \<^verbatim>\<open>undefined\<close>; \<^verbatim>\<open>x && f(x)\<close> on an object or \<^verbatim>\<open>undefined\<close> maps the option.
\<close>

definition buildSocket ::
  "'e Collaborators \<Rightarrow> string \<Rightarrow> ast_Socket \<Rightarrow> (string \<Rightarrow> jsvalue) \<Rightarrow> DefBody" where
  "buildSocket u text statement typeNameToPath =
     SocketBody
       (case List.find (\<lambda>item. span u text (sender item) = ''server''
                           \<and> span u text (receiver item) = ''client'') (socket_items statement) of
          None \<Rightarrow> None
        | Some found \<Rightarrow> Some (buildSocketItem u text found typeNameToPath))
       (case List.find (\<lambda>item. span u text (sender item) = ''client''
                           \<and> span u text (receiver item) = ''server'') (socket_items statement) of
          None \<Rightarrow> None
        | Some found \<Rightarrow> Some (buildSocketItem u text found typeNameToPath))"

definition buildStruct ::
  "'e Collaborators \<Rightarrow> string \<Rightarrow> ast_Struct \<Rightarrow> (string \<Rightarrow> jsvalue) \<Rightarrow> DefBody" where
  "buildStruct u text statement typeNameToPath =
     StructBody (map (\<lambda>field. buildStructField u text field typeNameToPath)
                   (struct_fields statement))"

definition buildUnion ::
  "'e Collaborators \<Rightarrow> string \<Rightarrow> ast_Union \<Rightarrow> (string \<Rightarrow> jsvalue) \<Rightarrow> DefBody" where
  "buildUnion u text statement typeNameToPath =
     UnionBody (map (\<lambda>item.
        \<lparr>unionitem_attributes = buildAttributes u text (ui_attributes item),
         unionitem_name = span u text (ui_name item),
         unionitem_fields =
           (case ui_struct item of
              None \<Rightarrow> []
            | Some s \<Rightarrow> map (\<lambda>field. buildStructField u text field typeNameToPath)
                          (us_fields s))\<rparr>)
        (union_items statement))"

text \<open>
  \<^verbatim>\<open>buildDef\<close> looks the statement's tag up in \<^verbatim>\<open>buildDefBodyFns\<close>; the entry of
  Import is \<^verbatim>\<open>undefined\<close>, and then no definition is returned.
\<close>

fun buildDef ::
  "'e Collaborators \<Rightarrow> string \<Rightarrow> ModuleLevelStatement \<Rightarrow> (string \<Rightarrow> jsvalue) \<Rightarrow> ir_Def option" where
  "buildDef u text (EnumStatement s) typeNameToPath =
     Some \<lparr>def_attributes = buildAttributes u text (enum_attributes s),
           def_name = span u text (enum_name s),
           def_body = buildEnum u text s\<rparr>"
| "buildDef u text (ImportStatement s) typeNameToPath = None"
| "buildDef u text (RpcStatement s) typeNameToPath =
     Some \<lparr>def_attributes = buildAttributes u text (rpc_attributes s),
           def_name = span u text (rpc_name s),
           def_body = buildRpc u text s typeNameToPath\<rparr>"
| "buildDef u text (ScalarStatement s) typeNameToPath =
     Some \<lparr>def_attributes = buildAttributes u text (scalar_attributes s),
           def_name = span u text (scalar_name s),
           def_body = buildScalar u text s typeNameToPath\<rparr>"
| "buildDef u text (SocketStatement s) typeNameToPath =
     Some \<lparr>def_attributes = buildAttributes u text (socket_attributes s),
           def_name = span u text (socket_name s),
           def_body = buildSocket u text s typeNameToPath\<rparr>"
| "buildDef u text (StructStatement s) typeNameToPath =
     Some \<lparr>def_attributes = buildAttributes u text (struct_attributes s),
           def_name = span u text (struct_name s),
           def_body = buildStruct u text s typeNameToPath\<rparr>"
| "buildDef u text (UnionStatement s) typeNameToPath =
     Some \<lparr>def_attributes = buildAttributes u text (union_attributes s),
           def_name = span u text (union_name s),
           def_body = buildUnion u text s typeNameToPath\<rparr>"

definition buildImport :: "'e Collaborators \<Rightarrow> string \<Rightarrow> ast_Import \<Rightarrow> ir_Import" where
  "buildImport u text importNode =
     \<lparr>imp_attributes = buildAttributes u text (import_attributes importNode),
      imp_modulePath = pathItemsToString u text (import_path importNode),
      imp_items = map (\<lambda>item.
         \<lparr>item_name = span u text (ii_name item),
          item_as = (case ii_alias item of
                       None \<Rightarrow> None
                     | Some a \<Rightarrow> Some (span u text (alias_name a)))\<rparr>)
         (import_items importNode)\<rparr>"

section \<open>Symbol resolution of one module\<close>

text \<open>
  \<^verbatim>\<open>defStatements\<close> keeps the statements that have a \<^verbatim>\<open>name\<close> property, that is
  all but the imports; \<^verbatim>\<open>localDefNames\<close> is the set of their names.
\<close>

fun statementName :: "ModuleLevelStatement \<Rightarrow> Span option" where
  "statementName (EnumStatement s) = Some (enum_name s)"
| "statementName (ImportStatement s) = None"
| "statementName (RpcStatement s) = Some (rpc_name s)"
| "statementName (ScalarStatement s) = Some (scalar_name s)"
| "statementName (SocketStatement s) = Some (socket_name s)"
| "statementName (StructStatement s) = Some (struct_name s)"
| "statementName (UnionStatement s) = Some (union_name s)"

definition defStatements :: "BdlAst \<Rightarrow> ModuleLevelStatement list" where
  "defStatements ast = filter (\<lambda>s. statementName s \<noteq> None) (statements ast)"

definition localDefNames :: "'e Collaborators \<Rightarrow> string \<Rightarrow> BdlAst \<Rightarrow> string set" where
  "localDefNames u text ast =
     set (map (\<lambda>statement. span u text (the (statementName statement))) (defStatements ast))"

fun isImport :: "ModuleLevelStatement \<Rightarrow> bool" where
  "isImport (ImportStatement s) = True"
| "isImport _ = False"

definition buildImports :: "'e Collaborators \<Rightarrow> string \<Rightarrow> BdlAst \<Rightarrow> ir_Import list" where
  "buildImports u text ast =
     concat (map (\<lambda>s. case s of ImportStatement importNode \<Rightarrow> [buildImport u text importNode]
                              | _ \<Rightarrow> [])
               (filter isImport (statements ast)))"

text \<open>
  The body of the inner loop over import items: the alias, when it is a non-empty
  string (\<^verbatim>\<open>if (importItem.as)\<close>), otherwise the declared name, is bound to
  \<^verbatim>\<open>`${importStatement.modulePath}.${importItem.name}`\<close>.
\<close>

definition importedNames_item ::
  "string \<Rightarrow> (string \<rightharpoonup> string) \<Rightarrow> ir_ImportItem \<Rightarrow> (string \<rightharpoonup> string)" where
  "importedNames_item importModulePath names importItem =
     (case item_as importItem of
        None \<Rightarrow> names(item_name importItem \<mapsto> importModulePath @ ''.'' @ item_name importItem)
      | Some a \<Rightarrow>
          if a \<noteq> [] then names(a \<mapsto> importModulePath @ ''.'' @ item_name importItem)
          else names(item_name importItem \<mapsto> importModulePath @ ''.'' @ item_name importItem))"

definition importedNames :: "ir_Import list \<Rightarrow> (string \<rightharpoonup> string)" where
  "importedNames imps =
     foldl (\<lambda>names importStatement.
              foldl (importedNames_item (imp_modulePath importStatement)) names
                (imp_items importStatement))
       Map.empty imps"

definition typeNameToPath ::
  "string \<Rightarrow> string set \<Rightarrow> (string \<rightharpoonup> string) \<Rightarrow> string \<Rightarrow> jsvalue" where
  "typeNameToPath modulePath localNames imported typeName =
     (if typeName \<in> localNames then JsString (modulePath @ ''.'' @ typeName)
      else if js_in typeName imported then js_get imported typeName
      else JsString typeName)"

section \<open>Building one module\<close>

text \<open>The body of the loop over \<^verbatim>\<open>defStatements\<close>, on the pair of \<^verbatim>\<open>defPaths\<close> and \<^verbatim>\<open>ir.defs\<close>.\<close>

definition defStep ::
  "'e Collaborators \<Rightarrow> string \<Rightarrow> string \<Rightarrow> (string \<Rightarrow> jsvalue) \<Rightarrow>
   string list \<times> (string \<rightharpoonup> ir_Def) \<Rightarrow> ModuleLevelStatement \<Rightarrow> string list \<times> (string \<rightharpoonup> ir_Def)" where
  "defStep u text modulePath resolve acc statement =
     (case buildDef u text statement resolve of
        None \<Rightarrow> acc
      | Some d \<Rightarrow>
          (fst acc @ [modulePath @ ''.'' @ def_name d],
           (snd acc)(modulePath @ ''.'' @ def_name d \<mapsto> d)))"

definition moduleResolver :: "'e Collaborators \<Rightarrow> ModuleFile \<Rightarrow> string \<Rightarrow> jsvalue" where
  "moduleResolver u moduleFile =
     typeNameToPath (mf_modulePath moduleFile)
       (localDefNames u (mf_text moduleFile) (mf_ast moduleFile))
       (importedNames (buildImports u (mf_text moduleFile) (mf_ast moduleFile)))"

definition moduleDefs ::
  "'e Collaborators \<Rightarrow> ModuleFile \<Rightarrow> (string \<rightharpoonup> ir_Def) \<Rightarrow> string list \<times> (string \<rightharpoonup> ir_Def)" where
  "moduleDefs u moduleFile ds =
     foldl (defStep u (mf_text moduleFile) (mf_modulePath moduleFile) (moduleResolver u moduleFile))
       ([], ds) (defStatements (mf_ast moduleFile))"

text \<open>The body of the loop \<^verbatim>\<open>for await (const moduleFile of gather(config))\<close>.\<close>

definition processModule ::
  "'e Collaborators \<Rightarrow> BuildBdlIrResult \<Rightarrow> ModuleFile \<Rightarrow> BuildBdlIrResult" where
  "processModule u acc moduleFile =
     \<lparr>asts = (asts acc)(mf_modulePath moduleFile \<mapsto> mf_ast moduleFile),
      ir = \<lparr>modules = (modules (ir acc))(mf_modulePath moduleFile \<mapsto>
                \<lparr>fileUrl = mf_fileUrl moduleFile,
                 module_attributes =
                   buildAttributes u (mf_text moduleFile) (ast_attributes (mf_ast moduleFile)),
                 defPaths = fst (moduleDefs u moduleFile (defs (ir acc))),
                 module_imports = buildImports u (mf_text moduleFile) (mf_ast moduleFile)\<rparr>),
            defs = snd (moduleDefs u moduleFile (defs (ir acc)))\<rparr>\<rparr>"

section \<open>Traversal of the module graph\<close>

text \<open>
  \<^verbatim>\<open>gather\<close> is an asynchronous generator. The model returns what it generates: the
  module files yielded, in order, and how the generator ended, by exhausting the queue
  (\<open>None\<close>) or by the failure thrown by \<^verbatim>\<open>resolveModuleFile\<close> or \<^verbatim>\<open>parseBdl\<close>. Every
  file yielded stands for one call of \<^verbatim>\<open>resolveModuleFile\<close> and one of
  \<^verbatim>\<open>parseBdl\<close>. The queue is the array of the source: \<^verbatim>\<open>pop\<close> takes its last
  element, \<^verbatim>\<open>push\<close> appends. The loop need not end (the capability may name new
  modules for ever), so the result is optional and \<open>None\<close> is a run that never ends.
\<close>

partial_function (option) gather_loop ::
  "'e Collaborators \<Rightarrow> (string \<Rightarrow> 'e + ResolveModuleFileResult) \<Rightarrow>
   string list \<Rightarrow> string set \<Rightarrow> ModuleFile list \<Rightarrow> (ModuleFile list \<times> 'e option) option" where
  "gather_loop u resolve queue visited yielded =
     (if queue = [] then Some (yielded, None)
      else if last queue \<in> visited then gather_loop u resolve (butlast queue) visited yielded
      else
        (case resolve (last queue) of
           Inl e \<Rightarrow> Some (yielded, Some e)
         | Inr resolveModuleFileResult \<Rightarrow>
             (case parseBdl u (res_text resolveModuleFileResult) of
                Inl e \<Rightarrow> Some (yielded, Some e)
              | Inr ast \<Rightarrow>
                  gather_loop u resolve
                    (butlast queue @ getImportPaths u (res_text resolveModuleFileResult) ast)
                    (insert (last queue) visited)
                    (yielded @
                       [\<lparr>mf_fileUrl = res_fileUrl resolveModuleFileResult,
                         mf_text = res_text resolveModuleFileResult,
                         mf_modulePath = last queue,
                         mf_ast = ast\<rparr>]))))"

definition gather ::
  "'e Collaborators \<Rightarrow> 'e BuildBdlIrConfig \<Rightarrow> (ModuleFile list \<times> 'e option) option" where
  "gather u config =
     gather_loop u (resolveModuleFile config) (entryModulePaths config) {} []"

section \<open>The build entry point\<close>

text \<open>
  \<^verbatim>\<open>buildBdlIr\<close> runs the loop body on each file as \<^verbatim>\<open>gather\<close> yields it, starting
  from empty maps. The body is total and does not touch the queue or the visited set,
  so the maps are those of folding the body over the files yielded. A failure thrown
  inside \<^verbatim>\<open>gather\<close> rejects the promise, and the maps built so far, which are local
  to the call, are dropped.
\<close>

definition emptyResult :: BuildBdlIrResult where
  "emptyResult = \<lparr>asts = Map.empty, ir = \<lparr>modules = Map.empty, defs = Map.empty\<rparr>\<rparr>"

definition buildBdlIr ::
  "'e Collaborators \<Rightarrow> 'e BuildBdlIrConfig \<Rightarrow> ('e + BuildBdlIrResult) option" where
  "buildBdlIr u config =
     (case gather u config of
        None \<Rightarrow> None
      | Some (yielded, Some e) \<Rightarrow> Some (Inl e)
      | Some (yielded, None) \<Rightarrow> Some (Inr (foldl (processModule u) emptyResult yielded)))"

declare gather_loop.simps [code]

section \<open>An example program\<close>

text \<open>
  Three modules for evaluating the model at concrete inputs. Module \<open>a\<close> imports
  \<open>X\<close> from \<open>c\<close> under the alias \<open>Y\<close> and declares two structs named \<open>S\<close>; module
  \<open>b\<close> imports \<open>X\<close> from \<open>c\<close> and declares a socket whose client-to-server item comes
  first; module \<open>c\<close> imports \<open>S\<close> from \<open>a\<close>, closing a cycle.
\<close>

definition ex_text_a :: "string" where
  "ex_text_a =
     ''import c{X as Y}struct S{f:Y}struct S{g:int[]}''"

definition ex_text_b :: "string" where
  "ex_text_b =
     ''import c{X}socket K{client->server:X,server->client:int[string]}''"

definition ex_text_c :: "string" where
  "ex_text_c =
     ''import a{S}struct X{}''"

definition ex_struct_a1 :: "ast_Struct" where
  "ex_struct_a1 =
     \<lparr>struct_attributes = [], struct_name = \<lparr>span_start = 23, span_end = 24\<rparr>,
         struct_fields = [\<lparr>sf_attributes = [], sf_name = \<lparr>span_start = 25, span_end = 26\<rparr>, sf_question = None,
            sf_itemType = \<lparr>valueType = \<lparr>span_start = 27, span_end = 28\<rparr>, container = None\<rparr>\<rparr>]\<rparr>"

definition ex_struct_a2 :: "ast_Struct" where
  "ex_struct_a2 =
     \<lparr>struct_attributes = [], struct_name = \<lparr>span_start = 36, span_end = 37\<rparr>,
         struct_fields = [\<lparr>sf_attributes = [], sf_name = \<lparr>span_start = 38, span_end = 39\<rparr>, sf_question = None,
            sf_itemType = \<lparr>valueType = \<lparr>span_start = 40, span_end = 43\<rparr>, container = Some \<lparr>keyType = None\<rparr>\<rparr>\<rparr>]\<rparr>"

definition ex_ast_a :: "BdlAst" where
  "ex_ast_a =
     \<lparr>statements =
       [ImportStatement \<lparr>import_attributes = [], import_path = [\<lparr>span_start = 7, span_end = 8\<rparr>],
         import_items = [\<lparr>ii_name = \<lparr>span_start = 9, span_end = 10\<rparr>, ii_alias = Some \<lparr>alias_name = \<lparr>span_start = 14, span_end = 15\<rparr>\<rparr>\<rparr>]\<rparr>,
        StructStatement ex_struct_a1,
        StructStatement ex_struct_a2],
      ast_attributes = []\<rparr>"

definition ex_socket_b :: "ast_Socket" where
  "ex_socket_b =
     \<lparr>socket_attributes = [], socket_name = \<lparr>span_start = 18, span_end = 19\<rparr>,
      socket_items =
        [\<lparr>si_attributes = [], sender = \<lparr>span_start = 20, span_end = 26\<rparr>, receiver = \<lparr>span_start = 28, span_end = 34\<rparr>,
            si_messageType = \<lparr>valueType = \<lparr>span_start = 35, span_end = 36\<rparr>, container = None\<rparr>\<rparr>,
         \<lparr>si_attributes = [], sender = \<lparr>span_start = 37, span_end = 43\<rparr>, receiver = \<lparr>span_start = 45, span_end = 51\<rparr>,
            si_messageType = \<lparr>valueType = \<lparr>span_start = 52, span_end = 55\<rparr>, container = Some \<lparr>keyType = Some \<lparr>span_start = 56, span_end = 62\<rparr>\<rparr>\<rparr>\<rparr>]\<rparr>"

definition ex_ast_b :: "BdlAst" where
  "ex_ast_b =
     \<lparr>statements =
       [ImportStatement \<lparr>import_attributes = [], import_path = [\<lparr>span_start = 7, span_end = 8\<rparr>],
         import_items = [\<lparr>ii_name = \<lparr>span_start = 9, span_end = 10\<rparr>, ii_alias = None\<rparr>]\<rparr>,
        SocketStatement ex_socket_b],
      ast_attributes = []\<rparr>"

definition ex_ast_c :: "BdlAst" where
  "ex_ast_c =
     \<lparr>statements =
       [ImportStatement \<lparr>import_attributes = [], import_path = [\<lparr>span_start = 7, span_end = 8\<rparr>],
         import_items = [\<lparr>ii_name = \<lparr>span_start = 9, span_end = 10\<rparr>, ii_alias = None\<rparr>]\<rparr>,
        StructStatement \<lparr>struct_attributes = [], struct_name = \<lparr>span_start = 18, span_end = 19\<rparr>,
         struct_fields = []\<rparr>],
      ast_attributes = []\<rparr>"

text \<open>
  Modelled from the spec: the collaborators of the example. A span is read as the
  substring between its two positions, a module path as the text of its path items, the
  content of an attribute as the text of its content span; the import paths of a tree
  are the paths of its import statements, in order; the parser knows the three texts.
\<close>

definition ex_span :: "string \<Rightarrow> Span \<Rightarrow> string" where
  "ex_span text s = take (span_end s - span_start s) (drop (span_start s) text)"

definition ex_getImportPaths :: "string \<Rightarrow> BdlAst \<Rightarrow> string list" where
  "ex_getImportPaths text ast =
     concat (map (\<lambda>s. case s of
                         ImportStatement importNode \<Rightarrow>
                           [concat (map (ex_span text) (import_path importNode))]
                       | _ \<Rightarrow> [])
               (statements ast))"

definition ex_parseBdl :: "string \<Rightarrow> string + BdlAst" where
  "ex_parseBdl text =
     (if text = ex_text_a then Inr ex_ast_a
      else if text = ex_text_b then Inr ex_ast_b
      else if text = ex_text_c then Inr ex_ast_c
      else Inl ''parse error'')"

definition ex_collab :: "string Collaborators" where
  "ex_collab =
     \<lparr>span = ex_span,
      pathItemsToString = (\<lambda>text path. concat (map (ex_span text) path)),
      getAttributeContent =
        (\<lambda>text attribute. case attr_content attribute of None \<Rightarrow> [] | Some c \<Rightarrow> ex_span text c),
      getImportPaths = ex_getImportPaths,
      parseBdl = ex_parseBdl\<rparr>"

definition ex_resolve :: "string \<Rightarrow> string + ResolveModuleFileResult" where
  "ex_resolve modulePath =
     (if modulePath = ''a'' then Inr \<lparr>res_fileUrl = Some ''file:///a.bdl'', res_text = ex_text_a\<rparr>
      else if modulePath = ''b'' then Inr \<lparr>res_fileUrl = None, res_text = ex_text_b\<rparr>
      else if modulePath = ''c'' then Inr \<lparr>res_fileUrl = None, res_text = ex_text_c\<rparr>
      else Inl ''module not found'')"

definition ex_config :: "string BuildBdlIrConfig" where
  "ex_config = \<lparr>entryModulePaths = [''a'', ''b''], resolveModuleFile = ex_resolve\<rparr>"

definition ex_config_missing :: "string BuildBdlIrConfig" where
  "ex_config_missing = \<lparr>entryModulePaths = [''d'', ''a''], resolveModuleFile = ex_resolve\<rparr>"

definition ex_file_a :: ModuleFile where
  "ex_file_a = \<lparr>mf_fileUrl = Some ''file:///a.bdl'', mf_text = ex_text_a, mf_modulePath = ''a'', mf_ast = ex_ast_a\<rparr>"

definition ex_file_b :: ModuleFile where
  "ex_file_b = \<lparr>mf_fileUrl = None, mf_text = ex_text_b, mf_modulePath = ''b'', mf_ast = ex_ast_b\<rparr>"

definition ex_file_c :: ModuleFile where
  "ex_file_c = \<lparr>mf_fileUrl = None, mf_text = ex_text_c, mf_modulePath = ''c'', mf_ast = ex_ast_c\<rparr>"

text \<open>
  A second capability, which differs from the first only at a path that the example
  program does not reach.
\<close>

definition ex_resolve_other :: "string \<Rightarrow> string + ResolveModuleFileResult" where
  "ex_resolve_other modulePath =
     (if modulePath = ''d'' then Inr \<lparr>res_fileUrl = None, res_text = ex_text_c\<rparr>
      else ex_resolve modulePath)"

definition ex_config_other :: "string BuildBdlIrConfig" where
  "ex_config_other = \<lparr>entryModulePaths = [''a'', ''b''], resolveModuleFile = ex_resolve_other\<rparr>"

section \<open>Notions of the specification\<close>

text \<open>
  The bindings the imports of a module declare, in declaration order, one per import
  item: the key is the alias when the item has a non-empty one and the declared name
  otherwise, the target is the imported module's path, a dot and the declared name.
\<close>

definition spec_importBindings :: "ir_Import list \<Rightarrow> (string \<times> string) list" where
  "spec_importBindings imps =
     concat (map (\<lambda>importStatement.
        map (\<lambda>importItem.
               (case item_as importItem of
                  None \<Rightarrow> item_name importItem
                | Some a \<Rightarrow> if a \<noteq> [] then a else item_name importItem,
                imp_modulePath importStatement @ ''.'' @ item_name importItem))
          (imp_items importStatement)) imps)"

text \<open>
  Fetching and parsing one module, as one iteration of \<^verbatim>\<open>gather\<close> does it: the
  failure of \<^verbatim>\<open>resolveModuleFile\<close> or of \<^verbatim>\<open>parseBdl\<close>, or the module file that
  the iteration yields.
\<close>

definition load ::
  "'e Collaborators \<Rightarrow> (string \<Rightarrow> 'e + ResolveModuleFileResult) \<Rightarrow> string \<Rightarrow> 'e + ModuleFile" where
  "load u resolve modulePath =
     (case resolve modulePath of
        Inl e \<Rightarrow> Inl e
      | Inr r \<Rightarrow>
          (case parseBdl u (res_text r) of
             Inl e \<Rightarrow> Inl e
           | Inr ast \<Rightarrow>
               Inr \<lparr>mf_fileUrl = res_fileUrl r, mf_text = res_text r,
                    mf_modulePath = modulePath, mf_ast = ast\<rparr>))"

definition importsOf :: "'e Collaborators \<Rightarrow> ModuleFile \<Rightarrow> string list" where
  "importsOf u moduleFile = getImportPaths u (mf_text moduleFile) (mf_ast moduleFile)"

text \<open>
  One import hop leads from a module that can be fetched and parsed to a module path
  its import declarations name. The reachable module paths are those that zero or more
  hops lead to from an entry module path.
\<close>

definition importHop ::
  "'e Collaborators \<Rightarrow> (string \<Rightarrow> 'e + ResolveModuleFileResult) \<Rightarrow> (string \<times> string) set" where
  "importHop u resolve =
     {(p, q). \<exists>moduleFile. load u resolve p = Inr moduleFile \<and> q \<in> set (importsOf u moduleFile)}"

definition reachable :: "'e Collaborators \<Rightarrow> 'e BuildBdlIrConfig \<Rightarrow> string set" where
  "reachable u config =
     (importHop u (resolveModuleFile config))\<^sup>* `` set (entryModulePaths config)"

text \<open>
  What a finished run of the loop of \<^verbatim>\<open>gather\<close> has done, in terms of the state it
  started from: it has yielded new files, each once, none for a path visited before,
  each the result of fetching and parsing its path, each reached from the queue; when
  it ended without failure, every path of the queue and every import of a new file has
  been visited; when it ended by a failure, the failure is that of fetching or parsing
  a path reached from the queue.
\<close>

definition gather_post ::
  "'e Collaborators \<Rightarrow> (string \<Rightarrow> 'e + ResolveModuleFileResult) \<Rightarrow>
   string list \<Rightarrow> string set \<Rightarrow> ModuleFile list \<Rightarrow> ModuleFile list \<times> 'e option \<Rightarrow> bool" where
  "gather_post u resolve queue visited yielded r =
     (\<exists>new. fst r = yielded @ new
        \<and> distinct (map mf_modulePath new)
        \<and> set (map mf_modulePath new) \<inter> visited = {}
        \<and> (\<forall>f\<in>set new. load u resolve (mf_modulePath f) = Inr f)
        \<and> set (map mf_modulePath new) \<subseteq> (importHop u resolve)\<^sup>* `` set queue
        \<and> (snd r = None \<longrightarrow>
              set queue \<subseteq> visited \<union> set (map mf_modulePath new)
              \<and> (\<forall>f\<in>set new. set (importsOf u f) \<subseteq> visited \<union> set (map mf_modulePath new)))
        \<and> (\<forall>e. snd r = Some e \<longrightarrow>
              (\<exists>p\<in>(importHop u resolve)\<^sup>* `` set queue. load u resolve p = Inl e)))"

text \<open>
  The writes to \<^verbatim>\<open>ir.defs\<close> made while one module is built, in order, and the
  module record stored for it.
\<close>

definition moduleBindings :: "'e Collaborators \<Rightarrow> ModuleFile \<Rightarrow> (string \<times> ir_Def) list" where
  "moduleBindings u moduleFile =
     map (\<lambda>d. (mf_modulePath moduleFile @ ''.'' @ def_name d, d))
       (List.map_filter (\<lambda>s. buildDef u (mf_text moduleFile) s (moduleResolver u moduleFile))
          (defStatements (mf_ast moduleFile)))"

definition moduleOf :: "'e Collaborators \<Rightarrow> ModuleFile \<Rightarrow> ir_Module" where
  "moduleOf u moduleFile =
     \<lparr>fileUrl = mf_fileUrl moduleFile,
      module_attributes =
        buildAttributes u (mf_text moduleFile) (ast_attributes (mf_ast moduleFile)),
      defPaths = map fst (moduleBindings u moduleFile),
      module_imports = buildImports u (mf_text moduleFile) (mf_ast moduleFile)\<rparr>"

section \<open>Type expressions\<close>

text \<open>
  C5: a type expression without a container becomes \<open>Plain\<close> of the resolved value-type
  name; with a container that has no key type, \<open>Array\<close> of the resolved value-type name;
  with a container that has a key type, \<open>Dictionary\<close> of the value-type name and the
  key-type name (the constructor's fields \<open>valueTypePath\<close> and \<open>keyTypePath\<close>, in this
  order), each resolved on its own by the resolution function of the module.
\<close>

theorem C5_buildType_shapes:
  "(container type = None \<longrightarrow>
      buildType u text type resolve = Plain (resolve (span u text (valueType type))))
   \<and> (\<forall>c. container type = Some c \<and> keyType c = None \<longrightarrow>
      buildType u text type resolve = Array (resolve (span u text (valueType type))))
   \<and> (\<forall>c k. container type = Some c \<and> keyType c = Some k \<longrightarrow>
      buildType u text type resolve =
        Dictionary (resolve (span u text (valueType type))) (resolve (span u text k)))"
  by (simp add: buildType_def)


text \<open>
  In the example, the field \<open>f: Y\<close> of module \<open>a\<close> is \<open>Plain\<close> of \<open>c.X\<close>, the field
  \<open>g: int[]\<close> is \<open>Array\<close> of \<open>int\<close>, and the message type \<open>int[string]\<close> of module \<open>b\<close>
  is \<open>Dictionary\<close> with value type \<open>int\<close> and key type \<open>string\<close>.
\<close>

theorem C5_buildType_shapes_witness:
  "buildType ex_collab ex_text_a
      \<lparr>valueType = \<lparr>span_start = 27, span_end = 28\<rparr>, container = None\<rparr>
      (moduleResolver ex_collab ex_file_a) = Plain (JsString ''c.X'')
   \<and> buildType ex_collab ex_text_a
      \<lparr>valueType = \<lparr>span_start = 40, span_end = 43\<rparr>, container = Some \<lparr>keyType = None\<rparr>\<rparr>
      (moduleResolver ex_collab ex_file_a) = Array (JsString ''int'')
   \<and> buildType ex_collab ex_text_b
      \<lparr>valueType = \<lparr>span_start = 52, span_end = 55\<rparr>,
       container = Some \<lparr>keyType = Some \<lparr>span_start = 56, span_end = 62\<rparr>\<rparr>\<rparr>
      (moduleResolver ex_collab ex_file_b) = Dictionary (JsString ''int'') (JsString ''string'')"
proof -
  have s1: "span ex_collab ex_text_a \<lparr>span_start = 27, span_end = 28\<rparr> = ''Y''"
    by code_simp
  have s2: "span ex_collab ex_text_a \<lparr>span_start = 40, span_end = 43\<rparr> = ''int''"
    by code_simp
  have s3: "span ex_collab ex_text_b \<lparr>span_start = 52, span_end = 55\<rparr> = ''int''"
    by code_simp
  have s4: "span ex_collab ex_text_b \<lparr>span_start = 56, span_end = 62\<rparr> = ''string''"
    by code_simp
  have r1: "moduleResolver ex_collab ex_file_a ''Y'' = JsString ''c.X''"
    by code_simp
  have r2: "moduleResolver ex_collab ex_file_a ''int'' = JsString ''int''"
    by code_simp
  have r3: "moduleResolver ex_collab ex_file_b ''int'' = JsString ''int''"
    by code_simp
  have r4: "moduleResolver ex_collab ex_file_b ''string'' = JsString ''string''"
    by code_simp
  show ?thesis
    using
      C5_buildType_shapes [of "\<lparr>valueType = \<lparr>span_start = 27, span_end = 28\<rparr>, container = None\<rparr>"
        ex_collab ex_text_a "moduleResolver ex_collab ex_file_a"]
      C5_buildType_shapes [of
        "\<lparr>valueType = \<lparr>span_start = 40, span_end = 43\<rparr>, container = Some \<lparr>keyType = None\<rparr>\<rparr>"
        ex_collab ex_text_a "moduleResolver ex_collab ex_file_a"]
      C5_buildType_shapes [of
        "\<lparr>valueType = \<lparr>span_start = 52, span_end = 55\<rparr>,
          container = Some \<lparr>keyType = Some \<lparr>span_start = 56, span_end = 62\<rparr>\<rparr>\<rparr>"
        ex_collab ex_text_b "moduleResolver ex_collab ex_file_b"]
    by (simp add: s1 s2 s3 s4 r1 r2 r3 r4)
qed

section \<open>Socket channels\<close>

lemma find_first_match:
  "\<forall>x\<in>set pre. \<not> P x \<Longrightarrow> P item \<Longrightarrow> List.find P (pre @ item # post) = Some item"
  by (induction pre) auto

lemma find_no_match: "\<forall>x\<in>set xs. \<not> P x \<Longrightarrow> List.find P xs = None"
  by (simp add: find_None_iff)

lemma find_channel:
  "((\<forall>x\<in>set xs. \<not> P x) \<longrightarrow> map_option f (List.find P xs) = None)
   \<and> (\<forall>pre item post. xs = pre @ item # post \<and> (\<forall>x\<in>set pre. \<not> P x) \<and> P item
        \<longrightarrow> map_option f (List.find P xs) = Some (f item))"
  by (auto simp: find_first_match find_no_match)

lemma buildSocket_map_option:
  "buildSocket u text statement resolve =
     SocketBody
       (map_option (\<lambda>found. buildSocketItem u text found resolve)
          (List.find (\<lambda>item. span u text (sender item) = ''server''
                           \<and> span u text (receiver item) = ''client'') (socket_items statement)))
       (map_option (\<lambda>found. buildSocketItem u text found resolve)
          (List.find (\<lambda>item. span u text (sender item) = ''client''
                           \<and> span u text (receiver item) = ''server'') (socket_items statement)))"
  by (simp add: buildSocket_def map_option_case)

text \<open>
  C4: the channels of a socket are found by role, not by position. \<open>serverToClient\<close> is
  built from the first item whose sender is \<open>server\<close> and whose receiver is \<open>client\<close>,
  \<open>clientToServer\<close> from the first item whose sender is \<open>client\<close> and whose receiver is
  \<open>server\<close>; a direction with no such item is left undefined; later matching items are
  not used; a socket body is returned in every case.
\<close>

theorem C4_buildSocket_by_role:
  "\<exists>s2c c2s.
     buildSocket u text statement resolve = SocketBody s2c c2s
     \<and> ((\<forall>x\<in>set (socket_items statement).
            \<not> (span u text (sender x) = ''server'' \<and> span u text (receiver x) = ''client''))
          \<longrightarrow> s2c = None)
     \<and> (\<forall>pre item post.
            socket_items statement = pre @ item # post
            \<and> (\<forall>x\<in>set pre.
                  \<not> (span u text (sender x) = ''server'' \<and> span u text (receiver x) = ''client''))
            \<and> span u text (sender item) = ''server'' \<and> span u text (receiver item) = ''client''
          \<longrightarrow> s2c = Some (buildSocketItem u text item resolve))
     \<and> ((\<forall>x\<in>set (socket_items statement).
            \<not> (span u text (sender x) = ''client'' \<and> span u text (receiver x) = ''server''))
          \<longrightarrow> c2s = None)
     \<and> (\<forall>pre item post.
            socket_items statement = pre @ item # post
            \<and> (\<forall>x\<in>set pre.
                  \<not> (span u text (sender x) = ''client'' \<and> span u text (receiver x) = ''server''))
            \<and> span u text (sender item) = ''client'' \<and> span u text (receiver item) = ''server''
          \<longrightarrow> c2s = Some (buildSocketItem u text item resolve))"
  unfolding buildSocket_map_option
  using find_channel [of "socket_items statement"
      "\<lambda>item. span u text (sender item) = ''server'' \<and> span u text (receiver item) = ''client''"
      "\<lambda>found. buildSocketItem u text found resolve"]
    find_channel [of "socket_items statement"
      "\<lambda>item. span u text (sender item) = ''client'' \<and> span u text (receiver item) = ''server''"
      "\<lambda>found. buildSocketItem u text found resolve"]
  by blast

text \<open>
  The socket of module \<open>b\<close> lists its client-to-server item first; the item listed second
  becomes \<open>serverToClient\<close>.
\<close>

theorem C4_buildSocket_by_role_witness:
  "buildSocket ex_collab ex_text_b ex_socket_b (moduleResolver ex_collab ex_file_b) =
     SocketBody
       (Some \<lparr>socketitem_attributes = [],
              messageType = Dictionary (JsString ''int'') (JsString ''string'')\<rparr>)
       (Some \<lparr>socketitem_attributes = [], messageType = Plain (JsString ''c.X'')\<rparr>)"
proof -
  let ?r = "moduleResolver ex_collab ex_file_b"
  let ?i1 = "socket_items ex_socket_b ! 0"
  let ?i2 = "socket_items ex_socket_b ! Suc 0"
  have items: "socket_items ex_socket_b = [?i1] @ ?i2 # []" "socket_items ex_socket_b = [] @ ?i1 # [?i2]"
    by (simp_all add: ex_socket_b_def)
  have roles:
    "span ex_collab ex_text_b (sender ?i1) = ''client''"
    "span ex_collab ex_text_b (receiver ?i1) = ''server''"
    "span ex_collab ex_text_b (sender ?i2) = ''server''"
    "span ex_collab ex_text_b (receiver ?i2) = ''client''"
    by code_simp+
  have b1: "buildSocketItem ex_collab ex_text_b ?i1 ?r =
      \<lparr>socketitem_attributes = [], messageType = Plain (JsString ''c.X'')\<rparr>"
    by code_simp
  have b2: "buildSocketItem ex_collab ex_text_b ?i2 ?r =
      \<lparr>socketitem_attributes = [], messageType = Dictionary (JsString ''int'') (JsString ''string'')\<rparr>"
    by code_simp
  obtain s2c c2s where
    body: "buildSocket ex_collab ex_text_b ex_socket_b ?r = SocketBody s2c c2s" and
    first_s2c: "\<And>pre item post. socket_items ex_socket_b = pre @ item # post \<Longrightarrow>
        (\<forall>x\<in>set pre. \<not> (span ex_collab ex_text_b (sender x) = ''server''
                          \<and> span ex_collab ex_text_b (receiver x) = ''client'')) \<Longrightarrow>
        span ex_collab ex_text_b (sender item) = ''server'' \<Longrightarrow>
        span ex_collab ex_text_b (receiver item) = ''client'' \<Longrightarrow>
        s2c = Some (buildSocketItem ex_collab ex_text_b item ?r)" and
    first_c2s: "\<And>pre item post. socket_items ex_socket_b = pre @ item # post \<Longrightarrow>
        (\<forall>x\<in>set pre. \<not> (span ex_collab ex_text_b (sender x) = ''client''
                          \<and> span ex_collab ex_text_b (receiver x) = ''server'')) \<Longrightarrow>
        span ex_collab ex_text_b (sender item) = ''client'' \<Longrightarrow>
        span ex_collab ex_text_b (receiver item) = ''server'' \<Longrightarrow>
        c2s = Some (buildSocketItem ex_collab ex_text_b item ?r)"
    using C4_buildSocket_by_role [of ex_collab ex_text_b ex_socket_b ?r] by blast
  have "s2c = Some (buildSocketItem ex_collab ex_text_b ?i2 ?r)"
    by (rule first_s2c [OF items(1)]) (use roles in simp_all)
  moreover have "c2s = Some (buildSocketItem ex_collab ex_text_b ?i1 ?r)"
    by (rule first_c2s [OF items(2)]) (use roles in simp_all)
  ultimately show ?thesis
    by (simp add: body b1 b2)
qed

section \<open>Imported names\<close>

lemma foldl_importedNames_item:
  "foldl (importedNames_item p) names items =
     names ++ map_of (rev (map (\<lambda>importItem.
               (case item_as importItem of
                  None \<Rightarrow> item_name importItem
                | Some a \<Rightarrow> if a \<noteq> [] then a else item_name importItem,
                p @ ''.'' @ item_name importItem)) items))"
proof (induction items arbitrary: names)
  case Nil
  then show ?case by simp
next
  case (Cons item items)
  let ?b = "\<lambda>importItem.
               (case item_as importItem of
                  None \<Rightarrow> item_name importItem
                | Some a \<Rightarrow> if a \<noteq> [] then a else item_name importItem,
                p @ ''.'' @ item_name importItem)"
  have step: "importedNames_item p names item = names ++ map_of [?b item]"
    by (simp add: importedNames_item_def split: option.splits)
  have "foldl (importedNames_item p) names (item # items)
          = foldl (importedNames_item p) (importedNames_item p names item) items"
    by simp
  also have "\<dots> = importedNames_item p names item ++ map_of (rev (map ?b items))"
    by (rule Cons.IH)
  also have "\<dots> = names ++ (map_of [?b item] ++ map_of (rev (map ?b items)))"
    by (simp only: step map_add_assoc)
  also have "\<dots> = names ++ map_of (rev (map ?b (item # items)))"
    by (simp only: list.map rev.simps map_of_append)
  finally show ?case .
qed

lemma foldl_map_add:
  "foldl (\<lambda>m x. m ++ map_of (rev (h x))) m xs = m ++ map_of (rev (concat (map h xs)))"
  by (induction xs arbitrary: m) (simp_all add: map_add_assoc)

lemma foldl_imports:
  "foldl (\<lambda>names importStatement.
              foldl (importedNames_item (imp_modulePath importStatement)) names
                (imp_items importStatement)) names imps
   = names ++ map_of (rev (spec_importBindings imps))"
  unfolding foldl_importedNames_item spec_importBindings_def
  by (rule foldl_map_add)

text \<open>
  C3, as the code has it: the imported-name map holds, for every import item of every
  import declaration in declaration order, later items overwriting earlier ones, one
  binding: from the alias when the item has a non-empty alias, and from the declared name
  otherwise, to the imported module's path, a dot and the declared name.
\<close>

theorem C3_importedNames_single_binding:
  "importedNames imps = map_of (rev (spec_importBindings imps))"
  by (simp add: importedNames_def foldl_imports)


text \<open>
  For an item \<open>X as Y\<close> imported from \<open>b\<close>, the name \<open>Y\<close> is bound to \<open>b.X\<close> and the
  name \<open>X\<close> is not bound; so it is for the import of module \<open>a\<close> of the example.
\<close>

theorem C3_both_names_bound_counterexample:
  "importedNames
     [\<lparr>imp_attributes = [], imp_modulePath = ''b'',
       imp_items = [\<lparr>item_name = ''X'', item_as = Some ''Y''\<rparr>]\<rparr>] ''X'' = None
   \<and> importedNames
     [\<lparr>imp_attributes = [], imp_modulePath = ''b'',
       imp_items = [\<lparr>item_name = ''X'', item_as = Some ''Y''\<rparr>]\<rparr>] ''Y'' = Some ''b.X''
   \<and> importedNames (buildImports ex_collab ex_text_a ex_ast_a) ''X'' = None"
  by (simp add: importedNames_def importedNames_item_def buildImports_def buildImport_def
      buildAttributes_def ex_ast_a_def ex_text_a_def ex_collab_def ex_span_def)

theorem C3_importedNames_single_binding_witness:
  "importedNames (buildImports ex_collab ex_text_a ex_ast_a) = [''Y'' \<mapsto> ''c.X'']"
proof -
  have "spec_importBindings (buildImports ex_collab ex_text_a ex_ast_a) = [(''Y'', ''c.X'')]"
    by code_simp
  then show ?thesis
    using C3_importedNames_single_binding [of "buildImports ex_collab ex_text_a ex_ast_a"]
    by simp
qed

section \<open>Resolution of a type name\<close>

text \<open>
  The three cases of \<^verbatim>\<open>typeNameToPath\<close>, with the fourth that the operator
  \<^verbatim>\<open>in\<close> adds: a name that is neither local nor imported, and that names a member
  of \<^verbatim>\<open>Object.prototype\<close>, is not returned unchanged.
\<close>

lemma typeNameToPath_resolution:
  "typeNameToPath modulePath localNames imported typeName =
     (if typeName \<in> localNames then JsString (modulePath @ ''.'' @ typeName)
      else case imported typeName of
             Some path \<Rightarrow> JsString path
           | None \<Rightarrow> if typeName \<in> set objectPrototypeKeys then JsInherited typeName
                     else JsString typeName)"
  by (simp add: typeNameToPath_def js_in_def js_get_def split: option.splits)


text \<open>
  C2: in module \<open>a\<close> of the example the type name \<open>constructor\<close> is neither declared
  nor imported, and the resolution function does not return it unchanged: it returns
  the member of \<^verbatim>\<open>Object.prototype\<close> of that name.
\<close>

theorem C2_inherited_key_not_unchanged:
  "''constructor'' \<notin> localDefNames ex_collab ex_text_a ex_ast_a
   \<and> importedNames (buildImports ex_collab ex_text_a ex_ast_a) ''constructor'' = None
   \<and> moduleResolver ex_collab ex_file_a ''constructor'' = JsInherited ''constructor''
   \<and> moduleResolver ex_collab ex_file_a ''constructor'' \<noteq> JsString ''constructor''"
  by code_simp

section \<open>The traversal of the module graph\<close>

text \<open>
  One iteration of the loop of \<^verbatim>\<open>gather\<close>, in terms of \<open>load\<close>; then what a finished
  run has done, by induction on the run; then that the run finishes when finitely many
  module paths are reachable, by induction on the number of reachable paths not yet
  visited and, inside it, on the queue.
\<close>

lemma load_modulePath: "load u resolve p = Inr f \<Longrightarrow> mf_modulePath f = p"
  by (auto simp: load_def split: sum.splits)

lemma gather_loop_unfold:
  "gather_loop u resolve queue visited yielded =
     (if queue = [] then Some (yielded, None)
      else if last queue \<in> visited then gather_loop u resolve (butlast queue) visited yielded
      else case load u resolve (last queue) of
             Inl e \<Rightarrow> Some (yielded, Some e)
           | Inr f \<Rightarrow>
               gather_loop u resolve (butlast queue @ importsOf u f)
                 (insert (last queue) visited) (yielded @ [f]))"
  by (subst gather_loop.simps) (simp add: load_def importsOf_def split: sum.splits)

lemma post_empty: "gather_post u resolve [] visited yielded (yielded, None)"
  by (simp add: gather_post_def)

lemma post_fail:
  assumes "load u resolve p = Inl e"
  shows "gather_post u resolve (qs @ [p]) visited yielded (yielded, Some e)"
proof -
  have "p \<in> (importHop u resolve)\<^sup>* `` set (qs @ [p])"
    by auto
  with assms show ?thesis
    unfolding gather_post_def by (intro exI [of _ "[]"]) auto
qed

lemma post_skip:
  assumes vis: "p \<in> visited"
    and post: "gather_post u resolve qs visited yielded r"
  shows "gather_post u resolve (qs @ [p]) visited yielded r"
proof -
  have img: "(importHop u resolve)\<^sup>* `` set qs \<subseteq> (importHop u resolve)\<^sup>* `` set (qs @ [p])"
    by (rule Image_mono [OF subset_refl]) auto
  from post obtain new where new:
    "fst r = yielded @ new" "distinct (map mf_modulePath new)"
    "set (map mf_modulePath new) \<inter> visited = {}"
    "\<forall>f\<in>set new. load u resolve (mf_modulePath f) = Inr f"
    "set (map mf_modulePath new) \<subseteq> (importHop u resolve)\<^sup>* `` set qs"
    "snd r = None \<longrightarrow>
       set qs \<subseteq> visited \<union> set (map mf_modulePath new)
       \<and> (\<forall>f\<in>set new. set (importsOf u f) \<subseteq> visited \<union> set (map mf_modulePath new))"
    "\<forall>e. snd r = Some e \<longrightarrow>
       (\<exists>p\<in>(importHop u resolve)\<^sup>* `` set qs. load u resolve p = Inl e)"
    unfolding gather_post_def by (elim exE conjE) (rule that; assumption)
  show ?thesis
    unfolding gather_post_def
  proof (intro exI [of _ new] conjI)
    show "set (map mf_modulePath new) \<subseteq> (importHop u resolve)\<^sup>* `` set (qs @ [p])"
      using new(5) img by blast
    show "snd r = None \<longrightarrow>
       set (qs @ [p]) \<subseteq> visited \<union> set (map mf_modulePath new)
       \<and> (\<forall>f\<in>set new. set (importsOf u f) \<subseteq> visited \<union> set (map mf_modulePath new))"
      using new(6) vis by simp
    show "\<forall>e. snd r = Some e \<longrightarrow>
       (\<exists>p\<in>(importHop u resolve)\<^sup>* `` set (qs @ [p]). load u resolve p = Inl e)"
      using new(7) img by blast
  qed (use new in simp_all)
qed

lemma post_visit:
  assumes unvis: "p \<notin> visited"
    and ld: "load u resolve p = Inr f"
    and post: "gather_post u resolve (qs @ importsOf u f) (insert p visited) (yielded @ [f]) r"
  shows "gather_post u resolve (qs @ [p]) visited yielded r"
proof -
  let ?H = "importHop u resolve"
  have path: "mf_modulePath f = p"
    using ld by (rule load_modulePath)
  have hop: "set (importsOf u f) \<subseteq> ?H `` {p}"
    using ld by (auto simp: importHop_def)
  have "set (qs @ importsOf u f) \<subseteq> ?H\<^sup>* `` set (qs @ [p])"
    using hop by auto
  then have "?H\<^sup>* `` set (qs @ importsOf u f) \<subseteq> ?H\<^sup>* `` (?H\<^sup>* `` set (qs @ [p]))"
    by (rule Image_mono [OF subset_refl])
  then have img: "?H\<^sup>* `` set (qs @ importsOf u f) \<subseteq> ?H\<^sup>* `` set (qs @ [p])"
    by (auto intro: rtrancl_trans)
  from post obtain new where new:
    "fst r = (yielded @ [f]) @ new" "distinct (map mf_modulePath new)"
    "set (map mf_modulePath new) \<inter> insert p visited = {}"
    "\<forall>f\<in>set new. load u resolve (mf_modulePath f) = Inr f"
    "set (map mf_modulePath new) \<subseteq> ?H\<^sup>* `` set (qs @ importsOf u f)"
    "snd r = None \<longrightarrow>
       set (qs @ importsOf u f) \<subseteq> insert p visited \<union> set (map mf_modulePath new)
       \<and> (\<forall>f\<in>set new. set (importsOf u f) \<subseteq> insert p visited \<union> set (map mf_modulePath new))"
    "\<forall>e. snd r = Some e \<longrightarrow> (\<exists>p\<in>?H\<^sup>* `` set (qs @ importsOf u f). load u resolve p = Inl e)"
    unfolding gather_post_def by (elim exE conjE) (rule that; assumption)
  have self: "p \<in> ?H\<^sup>* `` set (qs @ [p])"
    by auto
  show ?thesis
    unfolding gather_post_def
  proof (intro exI [of _ "f # new"] conjI)
    show "fst r = yielded @ f # new"
      using new(1) by simp
    show "distinct (map mf_modulePath (f # new))"
      using new(2,3) path by auto
    show "set (map mf_modulePath (f # new)) \<inter> visited = {}"
      using new(3) path unvis by auto
    show "\<forall>g\<in>set (f # new). load u resolve (mf_modulePath g) = Inr g"
      using new(4) path ld by auto
    show "set (map mf_modulePath (f # new)) \<subseteq> ?H\<^sup>* `` set (qs @ [p])"
      using new(5) img self path by auto
    show "snd r = None \<longrightarrow>
       set (qs @ [p]) \<subseteq> visited \<union> set (map mf_modulePath (f # new))
       \<and> (\<forall>g\<in>set (f # new).
             set (importsOf u g) \<subseteq> visited \<union> set (map mf_modulePath (f # new)))"
      using new(6) path by auto
    show "\<forall>e. snd r = Some e \<longrightarrow> (\<exists>p\<in>?H\<^sup>* `` set (qs @ [p]). load u resolve p = Inl e)"
      using new(7) img by blast
  qed
qed

lemma gather_loop_post:
  "gather_loop u resolve queue visited yielded = Some r
   \<Longrightarrow> gather_post u resolve queue visited yielded r"
proof (induction rule: gather_loop.raw_induct [rotated 1, consumes 1, case_names step])
  case (step loop u resolve queue visited yielded r)
  show ?case
  proof (cases queue rule: rev_cases)
    case Nil
    with step(2) show ?thesis
      by (auto simp: post_empty)
  next
    case (snoc qs p)
    show ?thesis
    proof (cases "p \<in> visited")
      case True
      with step(2) snoc have "loop u resolve qs visited yielded = Some r"
        by simp
      then have "gather_post u resolve qs visited yielded r"
        by (rule step(1))
      with True show ?thesis
        unfolding snoc by (rule post_skip)
    next
      case False
      show ?thesis
      proof (cases "load u resolve p")
        case (Inl e)
        with step(2) snoc False have "r = (yielded, Some e)"
          by (auto simp: load_def split: sum.splits)
        with Inl show ?thesis
          unfolding snoc by (simp add: post_fail)
      next
        case (Inr f)
        with step(2) snoc False
        have "loop u resolve (qs @ importsOf u f) (insert p visited) (yielded @ [f]) = Some r"
          by (auto simp: load_def importsOf_def split: sum.splits)
        then have "gather_post u resolve (qs @ importsOf u f) (insert p visited) (yielded @ [f]) r"
          by (rule step(1))
        with False Inr show ?thesis
          unfolding snoc by (rule post_visit)
      qed
    qed
  qed
qed

lemma gather_loop_terminates:
  assumes fin: "finite R" and closed: "importHop u resolve `` R \<subseteq> R"
  shows "set queue \<subseteq> R \<Longrightarrow> \<exists>r. gather_loop u resolve queue visited yielded = Some r"
proof (induction "card (R - visited)" arbitrary: visited queue yielded rule: less_induct)
  case less
  from less.prems show ?case
  proof (induction queue arbitrary: yielded rule: rev_induct)
    case Nil
    show ?case
      by (subst gather_loop_unfold) simp
  next
    case (snoc p qs)
    then have qs: "set qs \<subseteq> R" and p: "p \<in> R"
      by simp_all
    show ?case
    proof (cases "p \<in> visited")
      case True
      with snoc.IH [OF qs] show ?thesis
        by (subst gather_loop_unfold) simp
    next
      case False
      show ?thesis
      proof (cases "load u resolve p")
        case (Inl e)
        with False show ?thesis
          by (subst gather_loop_unfold) simp
      next
        case (Inr f)
        have "R - insert p visited \<subset> R - visited"
          using p False by auto
        then have smaller: "card (R - insert p visited) < card (R - visited)"
          using fin by (intro psubset_card_mono) auto
        have "set (importsOf u f) \<subseteq> importHop u resolve `` R"
          using Inr p by (auto simp: importHop_def)
        with closed qs have "set (qs @ importsOf u f) \<subseteq> R"
          by auto
        from less.hyps [OF smaller this]
        obtain r where "gather_loop u resolve (qs @ importsOf u f) (insert p visited) (yielded @ [f]) = Some r"
          by blast
        with False Inr show ?thesis
          by (subst gather_loop_unfold) simp
      qed
    qed
  qed
qed

lemma entries_reachable: "set (entryModulePaths config) \<subseteq> reachable u config"
  by (auto simp: reachable_def)

lemma reachable_closed:
  "importHop u (resolveModuleFile config) `` reachable u config \<subseteq> reachable u config"
  by (auto simp: reachable_def intro: rtrancl_into_rtrancl)

lemma reachable_least:
  assumes "set (entryModulePaths config) \<subseteq> S"
    and "importHop u (resolveModuleFile config) `` S \<subseteq> S"
  shows "reachable u config \<subseteq> S"
proof
  fix q assume "q \<in> reachable u config"
  then obtain p where p: "p \<in> set (entryModulePaths config)"
    and star: "(p, q) \<in> (importHop u (resolveModuleFile config))\<^sup>*"
    by (auto simp: reachable_def)
  from star show "q \<in> S"
  proof (induction rule: rtrancl_induct)
    case base
    with p assms(1) show ?case by auto
  next
    case (step y z)
    with assms(2) show ?case by auto
  qed
qed

lemma gather_terminates:
  "finite (reachable u config) \<Longrightarrow> \<exists>r. gather u config = Some r"
  unfolding gather_def
  by (rule gather_loop_terminates [OF _ reachable_closed entries_reachable])

lemma gather_result:
  assumes "gather u config = Some (files, err)"
  shows "distinct (map mf_modulePath files)"
    and "\<forall>f\<in>set files. load u (resolveModuleFile config) (mf_modulePath f) = Inr f"
    and "set (map mf_modulePath files) \<subseteq> reachable u config"
    and "err = None \<Longrightarrow> set (map mf_modulePath files) = reachable u config"
    and "err = Some e \<Longrightarrow> \<exists>p\<in>reachable u config. load u (resolveModuleFile config) p = Inl e"
proof -
  let ?r = "resolveModuleFile config"
  have "gather_post u ?r (entryModulePaths config) {} [] (files, err)"
    using assms unfolding gather_def by (rule gather_loop_post)
  then have d: "distinct (map mf_modulePath files)"
    and l: "\<forall>f\<in>set files. load u ?r (mf_modulePath f) = Inr f"
    and s: "set (map mf_modulePath files) \<subseteq> reachable u config"
    and n: "err = None \<longrightarrow>
       set (entryModulePaths config) \<subseteq> set (map mf_modulePath files)
       \<and> (\<forall>f\<in>set files. set (importsOf u f) \<subseteq> set (map mf_modulePath files))"
    and e: "\<forall>e. err = Some e \<longrightarrow> (\<exists>p\<in>reachable u config. load u ?r p = Inl e)"
    unfolding gather_post_def reachable_def by auto
  show "distinct (map mf_modulePath files)" by (rule d)
  show "\<forall>f\<in>set files. load u ?r (mf_modulePath f) = Inr f" by (rule l)
  show "set (map mf_modulePath files) \<subseteq> reachable u config" by (rule s)
  show "\<exists>p\<in>reachable u config. load u ?r p = Inl e" if "err = Some e"
    using e that by blast
  show "set (map mf_modulePath files) = reachable u config" if "err = None"
  proof
    show "set (map mf_modulePath files) \<subseteq> reachable u config" by (rule s)
    have "importHop u ?r `` set (map mf_modulePath files) \<subseteq> set (map mf_modulePath files)"
    proof
      fix q assume "q \<in> importHop u ?r `` set (map mf_modulePath files)"
      then obtain f g where f: "f \<in> set files" and g: "load u ?r (mf_modulePath f) = Inr g"
        and q: "q \<in> set (importsOf u g)"
        by (auto simp: importHop_def)
      from f l g have "g = f" by auto
      with n that f q show "q \<in> set (map mf_modulePath files)" by blast
    qed
    with n that show "reachable u config \<subseteq> set (map mf_modulePath files)"
      by (intro reachable_least) auto
  qed
qed

lemma gather_complete:
  assumes "finite (reachable u config)"
    and "\<forall>p\<in>reachable u config. \<exists>f. load u (resolveModuleFile config) p = Inr f"
  shows "\<exists>files. gather u config = Some (files, None)"
proof -
  from gather_terminates [OF assms(1)] obtain files err
    where g: "gather u config = Some (files, err)"
    by (metis surj_pair)
  have "err = None"
  proof (cases err)
    case (Some e)
    from gather_result(5) [OF g Some] obtain p
      where "p \<in> reachable u config" "load u (resolveModuleFile config) p = Inl e"
      by blast
    with assms(2) show ?thesis by auto
  qed simp
  with g show ?thesis by blast
qed

lemma gathered_file:
  assumes g: "gather u config = Some (files, None)"
    and p: "p \<in> reachable u config"
    and l: "load u (resolveModuleFile config) p = Inr f"
  shows "f \<in> set files" and "mf_modulePath f = p"
proof -
  have "p \<in> set (map mf_modulePath files)"
    using gather_result(4) [OF g] p by simp
  then obtain f' where f': "f' \<in> set files" "mf_modulePath f' = p"
    by auto
  with gather_result(2) [OF g] l have "f' = f" by auto
  with f' show "f \<in> set files" and "mf_modulePath f = p" by simp_all
qed

text \<open>
  The run only depends on what the capability answers at the paths it is asked for:
  two capabilities that agree on a set of paths closed under import hops give the same
  run from a queue inside that set.
\<close>

lemma gather_loop_agree:
  "gather_loop u r1 queue visited yielded = Some y
   \<Longrightarrow> importHop u r1 `` R \<subseteq> R \<Longrightarrow> \<forall>p\<in>R. r1 p = r2 p \<Longrightarrow> set queue \<subseteq> R
   \<Longrightarrow> gather_loop u r2 queue visited yielded = Some y"
proof (induction rule: gather_loop.raw_induct [rotated 1, consumes 1, case_names step])
  case (step loop u r1 queue visited yielded y)
  show ?case
  proof (cases queue rule: rev_cases)
    case Nil
    with step(2) show ?thesis
      by (subst gather_loop_unfold) simp
  next
    case (snoc qs p)
    with step.prems(3) have qs: "set qs \<subseteq> R" and p: "p \<in> R"
      by simp_all
    have ld: "load u r2 p = load u r1 p"
      using step.prems(2) p by (simp add: load_def)
    show ?thesis
    proof (cases "p \<in> visited")
      case True
      with step(2) snoc have "loop u r1 qs visited yielded = Some y"
        by simp
      then have "gather_loop u r2 qs visited yielded = Some y"
        using step.prems(1,2) qs by (rule step(1))
      with True snoc show ?thesis
        by (subst gather_loop_unfold) simp
    next
      case False
      show ?thesis
      proof (cases "load u r1 p")
        case (Inl e)
        with step(2) snoc False have "y = (yielded, Some e)"
          by (auto simp: load_def split: sum.splits)
        with Inl ld False snoc show ?thesis
          by (subst gather_loop_unfold) simp
      next
        case (Inr f)
        with step(2) snoc False
        have run: "loop u r1 (qs @ importsOf u f) (insert p visited) (yielded @ [f]) = Some y"
          by (auto simp: load_def importsOf_def split: sum.splits)
        have "set (importsOf u f) \<subseteq> importHop u r1 `` R"
          using Inr p by (auto simp: importHop_def)
        with step.prems(1) qs have "set (qs @ importsOf u f) \<subseteq> R"
          by auto
        with run have "gather_loop u r2 (qs @ importsOf u f) (insert p visited) (yielded @ [f]) = Some y"
          using step.prems(1,2) by (intro step(1))
        with Inr ld False snoc show ?thesis
          by (subst gather_loop_unfold) simp
      qed
    qed
  qed
qed

lemma importHop_agree:
  assumes "\<forall>p\<in>R. r1 p = r2 p" and "importHop u r1 `` R \<subseteq> R"
  shows "importHop u r2 `` R \<subseteq> R"
proof
  fix q assume "q \<in> importHop u r2 `` R"
  then obtain p f where p: "p \<in> R" and "load u r2 p = Inr f" and q: "q \<in> set (importsOf u f)"
    by (auto simp: importHop_def)
  with assms(1) have "load u r1 p = Inr f"
    by (simp add: load_def)
  with p q have "q \<in> importHop u r1 `` R"
    by (auto simp: importHop_def)
  with assms(2) show "q \<in> R" by blast
qed

lemma gather_agree:
  assumes entries: "entryModulePaths c1 = entryModulePaths c2"
    and agree: "\<forall>p\<in>reachable u c1. resolveModuleFile c1 p = resolveModuleFile c2 p"
  shows "gather u c1 = gather u c2"
proof -
  let ?R = "reachable u c1"
  have closed1: "importHop u (resolveModuleFile c1) `` ?R \<subseteq> ?R"
    by (rule reachable_closed)
  have closed2: "importHop u (resolveModuleFile c2) `` ?R \<subseteq> ?R"
    using agree closed1 by (rule importHop_agree)
  have agree': "\<forall>p\<in>?R. resolveModuleFile c2 p = resolveModuleFile c1 p"
    using agree by simp
  have q: "set (entryModulePaths c1) \<subseteq> ?R"
    by (rule entries_reachable)
  have fwd: "gather u c2 = Some y" if "gather u c1 = Some y" for y
    using that closed1 agree q unfolding gather_def entries [symmetric]
    by (rule gather_loop_agree)
  have bwd: "gather u c1 = Some y" if "gather u c2 = Some y" for y
    using that closed2 agree' q unfolding gather_def entries [symmetric]
    by (rule gather_loop_agree)
  show ?thesis
  proof (cases "gather u c1")
    case None
    show ?thesis
    proof (cases "gather u c2")
      case (Some y)
      from bwd [OF Some] None show ?thesis by simp
    qed (simp add: None)
  next
    case (Some y)
    from fwd [OF Some] Some show ?thesis by simp
  qed
qed

section \<open>The maps built from the module files\<close>

text \<open>
  The loops over the definition statements and over the module files are folds of map
  updates; the map they build is that of the list of their writes, the later write to a
  key hiding the earlier ones.
\<close>

lemma buildDef_name:
  "statementName s = Some n \<Longrightarrow> \<exists>d. buildDef u text s resolve = Some d \<and> def_name d = span u text n"
  by (cases s) auto

lemma buildDef_Some_name:
  "buildDef u t s resolve = Some d \<Longrightarrow> \<exists>n. statementName s = Some n \<and> def_name d = span u t n"
  by (cases s) auto

lemma foldl_defStep:
  "foldl (defStep u text modulePath resolve) acc stmts =
     (fst acc @ map (\<lambda>d. modulePath @ ''.'' @ def_name d)
                 (List.map_filter (\<lambda>s. buildDef u text s resolve) stmts),
      snd acc ++ map_of (rev (map (\<lambda>d. (modulePath @ ''.'' @ def_name d, d))
                 (List.map_filter (\<lambda>s. buildDef u text s resolve) stmts))))"
proof (induction stmts arbitrary: acc)
  case Nil
  show ?case by (simp add: map_filter_simps)
next
  case (Cons s stmts)
  let ?F = "defStep u text modulePath resolve"
  let ?built = "\<lambda>xs. List.map_filter (\<lambda>s. buildDef u text s resolve) xs"
  let ?path = "\<lambda>d. modulePath @ ''.'' @ def_name d"
  have "foldl ?F acc (s # stmts) = foldl ?F (?F acc s) stmts"
    by simp
  also have "\<dots> = (fst (?F acc s) @ map ?path (?built stmts),
                   snd (?F acc s) ++ map_of (rev (map (\<lambda>d. (?path d, d)) (?built stmts))))"
    by (rule Cons.IH)
  also have "\<dots> = (fst acc @ map ?path (?built (s # stmts)),
                   snd acc ++ map_of (rev (map (\<lambda>d. (?path d, d)) (?built (s # stmts)))))"
    by (cases "buildDef u text s resolve")
      (simp_all add: defStep_def map_filter_simps)
  finally show ?case .
qed

lemma moduleDefs_bindings:
  "moduleDefs u f ds = (map fst (moduleBindings u f), ds ++ map_of (rev (moduleBindings u f)))"
  by (simp add: moduleDefs_def foldl_defStep moduleBindings_def comp_def)

lemma processModule_eq:
  "processModule u acc f =
     \<lparr>asts = (asts acc)(mf_modulePath f \<mapsto> mf_ast f),
      ir = \<lparr>modules = (modules (ir acc))(mf_modulePath f \<mapsto> moduleOf u f),
            defs = defs (ir acc) ++ map_of (rev (moduleBindings u f))\<rparr>\<rparr>"
  by (simp add: processModule_def moduleDefs_bindings moduleOf_def)

lemma foldl_processModule:
  "foldl (processModule u) acc files =
     \<lparr>asts = asts acc ++ map_of (rev (map (\<lambda>f. (mf_modulePath f, mf_ast f)) files)),
      ir = \<lparr>modules = modules (ir acc) ++ map_of (rev (map (\<lambda>f. (mf_modulePath f, moduleOf u f)) files)),
            defs = defs (ir acc) ++ map_of (rev (concat (map (moduleBindings u) files)))\<rparr>\<rparr>"
proof (induction files arbitrary: acc)
  case Nil
  show ?case by simp
next
  case (Cons f files)
  have "foldl (processModule u) acc (f # files)
          = foldl (processModule u) (processModule u acc f) files"
    by simp
  also have "\<dots> =
     \<lparr>asts = asts (processModule u acc f)
               ++ map_of (rev (map (\<lambda>f. (mf_modulePath f, mf_ast f)) files)),
      ir = \<lparr>modules = modules (ir (processModule u acc f))
               ++ map_of (rev (map (\<lambda>f. (mf_modulePath f, moduleOf u f)) files)),
            defs = defs (ir (processModule u acc f))
               ++ map_of (rev (concat (map (moduleBindings u) files)))\<rparr>\<rparr>"
    by (rule Cons.IH)
  also have "\<dots> =
     \<lparr>asts = asts acc ++ map_of (rev (map (\<lambda>f. (mf_modulePath f, mf_ast f)) (f # files))),
      ir = \<lparr>modules = modules (ir acc)
               ++ map_of (rev (map (\<lambda>f. (mf_modulePath f, moduleOf u f)) (f # files))),
            defs = defs (ir acc) ++ map_of (rev (concat (map (moduleBindings u) (f # files))))\<rparr>\<rparr>"
    by (simp add: processModule_eq)
  finally show ?case .
qed

lemma bindings_statement_names:
  "map fst (moduleBindings u f) =
     map (\<lambda>s. mf_modulePath f @ ''.'' @ span u (mf_text f) (the (statementName s)))
       (defStatements (mf_ast f))"
proof -
  have "map (\<lambda>d. p @ ''.'' @ def_name d) (List.map_filter (\<lambda>s. buildDef u t s resolve) stmts)
      = map (\<lambda>s. p @ ''.'' @ span u t (the (statementName s))) stmts"
    if "\<forall>s\<in>set stmts. statementName s \<noteq> None" for p t resolve stmts
    using that
  proof (induction stmts)
    case Nil
    show ?case by (simp add: map_filter_simps)
  next
    case (Cons s stmts)
    then obtain n where n: "statementName s = Some n" by auto
    from buildDef_name [OF n, of u t resolve] obtain d
      where "buildDef u t s resolve = Some d" "def_name d = span u t n" by blast
    with Cons n show ?case
      by (simp add: map_filter_simps)
  qed
  then show ?thesis
    by (simp add: moduleBindings_def defStatements_def comp_def)
qed

lemma buildBdlIr_success:
  "buildBdlIr u config = Some (Inr result) \<longleftrightarrow>
     (\<exists>files. gather u config = Some (files, None)
        \<and> result = foldl (processModule u) emptyResult files)"
  by (auto simp: buildBdlIr_def split: option.splits prod.splits)

lemma buildBdlIr_failure:
  "buildBdlIr u config = Some (Inl e) \<longleftrightarrow> (\<exists>files. gather u config = Some (files, Some e))"
  by (auto simp: buildBdlIr_def split: option.splits prod.splits)

lemma map_of_rev_distinct:
  "distinct (map fst xs) \<Longrightarrow> (k, v) \<in> set xs \<Longrightarrow> map_of (rev xs) k = Some v"
  by (rule map_of_is_SomeI) (simp_all add: rev_map [symmetric])

lemma map_of_rev_last:
  "k \<notin> fst ` set after \<Longrightarrow> map_of (rev (before @ (k, v) # after)) k = Some v"
  by (simp add: map_add_def map_of_eq_None_iff [THEN iffD2] split: option.splits)

lemma built_asts:
  "asts (foldl (processModule u) emptyResult files) =
     map_of (rev (map (\<lambda>f. (mf_modulePath f, mf_ast f)) files))"
  by (simp add: foldl_processModule emptyResult_def)

lemma built_modules:
  "modules (ir (foldl (processModule u) emptyResult files)) =
     map_of (rev (map (\<lambda>f. (mf_modulePath f, moduleOf u f)) files))"
  by (simp add: foldl_processModule emptyResult_def)

lemma built_defs:
  "defs (ir (foldl (processModule u) emptyResult files)) =
     map_of (rev (concat (map (moduleBindings u) files)))"
  by (simp add: foldl_processModule emptyResult_def)

lemma dom_built_asts:
  "dom (asts (foldl (processModule u) emptyResult files)) = set (map mf_modulePath files)"
  by (simp add: built_asts dom_map_of_conv_image_fst image_image)

lemma dom_built_modules:
  "dom (modules (ir (foldl (processModule u) emptyResult files))) = set (map mf_modulePath files)"
  by (simp add: built_modules dom_map_of_conv_image_fst image_image)

lemma built_asts_at:
  assumes "distinct (map mf_modulePath files)" and "f \<in> set files"
  shows "asts (foldl (processModule u) emptyResult files) (mf_modulePath f) = Some (mf_ast f)"
  unfolding built_asts using assms
  by (intro map_of_rev_distinct) (auto simp: comp_def)

lemma built_modules_at:
  assumes "distinct (map mf_modulePath files)" and "f \<in> set files"
  shows "modules (ir (foldl (processModule u) emptyResult files)) (mf_modulePath f)
           = Some (moduleOf u f)"
  unfolding built_modules using assms
  by (intro map_of_rev_distinct) (auto simp: comp_def)

lemma built_modules_ran:
  assumes "modules (ir (foldl (processModule u) emptyResult files)) p = Some m"
  shows "\<exists>f\<in>set files. m = moduleOf u f"
proof -
  from assms have "(p, m) \<in> set (rev (map (\<lambda>f. (mf_modulePath f, moduleOf u f)) files))"
    unfolding built_modules by (rule map_of_SomeD)
  then show ?thesis by auto
qed

lemma built_defs_dom:
  "dom (defs (ir (foldl (processModule u) emptyResult files)))
     = (\<Union>f\<in>set files. set (map fst (moduleBindings u f)))"
  by (auto simp: built_defs dom_map_of_conv_image_fst)

lemma count_list_paths:
  "count_list (map (\<lambda>s. p @ c # g s) xs) (p @ c # n) = length (filter (\<lambda>s. g s = n) xs)"
  by (induction xs) simp_all

lemma moduleBindings_split:
  assumes split: "defStatements (mf_ast f) = pre @ s # post"
    and last: "\<forall>s'\<in>set post. span u (mf_text f) (the (statementName s')) \<noteq> name"
    and name: "span u (mf_text f) (the (statementName s)) = name"
  shows "\<exists>d before after.
           buildDef u (mf_text f) s (moduleResolver u f) = Some d
           \<and> moduleBindings u f = before @ (mf_modulePath f @ ''.'' @ name, d) # after
           \<and> mf_modulePath f @ ''.'' @ name \<notin> fst ` set after"
proof -
  let ?B = "\<lambda>s. buildDef u (mf_text f) s (moduleResolver u f)"
  let ?bind = "\<lambda>d. (mf_modulePath f @ ''.'' @ def_name d, d)"
  have "s \<in> set (defStatements (mf_ast f))"
    using split by simp
  then obtain n where n: "statementName s = Some n"
    by (auto simp: defStatements_def)
  from buildDef_name [OF n, of u "mf_text f" "moduleResolver u f"] obtain d
    where d: "?B s = Some d" "def_name d = span u (mf_text f) n" by blast
  have bind: "moduleBindings u f =
      map ?bind (List.map_filter ?B pre) @ ?bind d # map ?bind (List.map_filter ?B post)"
    by (simp add: moduleBindings_def split map_filter_simps d(1) List.map_filter_def)
  have "mf_modulePath f @ ''.'' @ name \<notin> fst ` set (map ?bind (List.map_filter ?B post))"
  proof
    assume "mf_modulePath f @ ''.'' @ name \<in> fst ` set (map ?bind (List.map_filter ?B post))"
    then obtain s' d' where s': "s' \<in> set post" "?B s' = Some d'" "def_name d' = name"
      by (auto simp: List.map_filter_def)
    from buildDef_Some_name [OF s'(2)] obtain n'
      where "statementName s' = Some n'" "def_name d' = span u (mf_text f) n'" by blast
    with s' last show False by auto
  qed
  with d n name bind show ?thesis
    by (intro exI [of _ d] exI [of _ "map ?bind (List.map_filter ?B pre)"]
        exI [of _ "map ?bind (List.map_filter ?B post)"]) simp
qed

text \<open>
  Two modules write the same key of \<^verbatim>\<open>ir.defs\<close> only if a definition name contains a
  dot: a fully-qualified path determines the module path and the name when names have
  none.
\<close>

lemma qualified_path_inject:
  assumes "c \<notin> set n" and "c \<notin> set n'" and "p @ c # n = p' @ c # n'"
  shows "p = p' \<and> n = n'"
proof -
  from assms(3) obtain us where
    "(p = p' @ us \<and> us @ c # n = c # n') \<or> (p @ us = p' \<and> c # n = us @ c # n')"
    by (auto simp: append_eq_append_conv2)
  then show ?thesis
  proof
    assume a: "p = p' @ us \<and> us @ c # n = c # n'"
    show ?thesis
    proof (cases us)
      case Nil
      with a show ?thesis by simp
    next
      case (Cons x xs)
      with a have "n' = xs @ c # n" by simp
      with assms(2) show ?thesis by simp
    qed
  next
    assume a: "p @ us = p' \<and> c # n = us @ c # n'"
    show ?thesis
    proof (cases us)
      case Nil
      with a show ?thesis by simp
    next
      case (Cons x xs)
      with a have "n = xs @ c # n'" by simp
      with assms(1) show ?thesis by simp
    qed
  qed
qed

section \<open>The example program, evaluated\<close>

text \<open>
  From the entries \<open>a\<close> and \<open>b\<close> the traversal yields \<open>b\<close>, \<open>c\<close> and \<open>a\<close>, in this order,
  and these are the reachable module paths.
\<close>

lemma ex_gather:
  "gather ex_collab ex_config = Some ([ex_file_b, ex_file_c, ex_file_a], None)"
  by code_simp

lemma ex_paths:
  "mf_modulePath ex_file_a = ''a''" "mf_modulePath ex_file_b = ''b''" "mf_modulePath ex_file_c = ''c''"
  by (simp_all add: ex_file_a_def ex_file_b_def ex_file_c_def)

lemma ex_reachable: "reachable ex_collab ex_config = {''a'', ''b'', ''c''}"
proof -
  have "set (map mf_modulePath [ex_file_b, ex_file_c, ex_file_a]) = reachable ex_collab ex_config"
    by (rule gather_result(4) [OF ex_gather refl])
  then have "reachable ex_collab ex_config = {''b'', ''c'', ''a''}"
    by (simp add: ex_paths)
  then show ?thesis
    by (simp add: insert_commute)
qed

lemma ex_module_a:
  "modules (ir (foldl (processModule ex_collab) emptyResult [ex_file_b, ex_file_c, ex_file_a])) ''a''
     = Some (moduleOf ex_collab ex_file_a)"
proof -
  have "ex_file_a \<in> set [ex_file_b, ex_file_c, ex_file_a]"
    by simp
  from built_modules_at [OF gather_result(1) [OF ex_gather] this]
  show ?thesis
    by (simp only: ex_paths)
qed

lemma ex_load:
  "load ex_collab (resolveModuleFile ex_config) ''a'' = Inr ex_file_a"
  "load ex_collab (resolveModuleFile ex_config) ''b'' = Inr ex_file_b"
  "load ex_collab (resolveModuleFile ex_config) ''c'' = Inr ex_file_c"
  by code_simp+

lemma ex_loads:
  "\<forall>p\<in>reachable ex_collab ex_config. \<exists>f. load ex_collab (resolveModuleFile ex_config) p = Inr f"
  by (simp add: ex_reachable ex_load)

lemma ex_finite: "finite (reachable ex_collab ex_config)"
  by (simp add: ex_reachable)

lemma ex_build:
  "buildBdlIr ex_collab ex_config =
     Some (Inr (foldl (processModule ex_collab) emptyResult [ex_file_b, ex_file_c, ex_file_a]))"
  by (simp add: buildBdlIr_def ex_gather)

lemma ex_other_defPaths:
  "fst (moduleDefs ex_collab ex_file_b Map.empty) = [''b.K'']"
  "fst (moduleDefs ex_collab ex_file_c Map.empty) = [''c.X'']"
  by code_simp+

section \<open>Every reachable module is visited once\<close>

text \<open>
  C1: the module files that \<^verbatim>\<open>gather\<close> yields stand for the calls of the capability
  and of the parser that succeeded, one file per call. In every run that ends, no module
  path is yielded twice and every path yielded is reachable from the entries by import
  hops, however many import declarations name it and whether or not the imports form a
  cycle; when the run ends without failure the paths yielded are exactly the reachable
  ones. When finitely many module paths are reachable and each of them can be fetched
  and parsed, the run ends without failure, every reachable path is yielded exactly
  once, and the keys of the modules map and of the syntax-tree map are exactly the
  reachable module paths.
\<close>

theorem C1_each_reachable_module_once:
  "(\<forall>files err. gather u config = Some (files, err) \<longrightarrow>
       distinct (map mf_modulePath files)
       \<and> set (map mf_modulePath files) \<subseteq> reachable u config
       \<and> (\<forall>f\<in>set files. load u (resolveModuleFile config) (mf_modulePath f) = Inr f)
       \<and> (err = None \<longrightarrow> set (map mf_modulePath files) = reachable u config))
   \<and> (finite (reachable u config)
       \<and> (\<forall>p\<in>reachable u config. \<exists>f. load u (resolveModuleFile config) p = Inr f) \<longrightarrow>
       (\<exists>files result.
          gather u config = Some (files, None)
          \<and> distinct (map mf_modulePath files)
          \<and> set (map mf_modulePath files) = reachable u config
          \<and> buildBdlIr u config = Some (Inr result)
          \<and> dom (modules (ir result)) = reachable u config
          \<and> dom (asts result) = reachable u config))"
proof (intro conjI allI impI)
  fix files err
  assume g: "gather u config = Some (files, err)"
  show "distinct (map mf_modulePath files)"
    by (rule gather_result(1) [OF g])
  show "set (map mf_modulePath files) \<subseteq> reachable u config"
    by (rule gather_result(3) [OF g])
  show "\<forall>f\<in>set files. load u (resolveModuleFile config) (mf_modulePath f) = Inr f"
    by (rule gather_result(2) [OF g])
  show "set (map mf_modulePath files) = reachable u config" if "err = None"
    using that by (rule gather_result(4) [OF g])
next
  assume "finite (reachable u config)
    \<and> (\<forall>p\<in>reachable u config. \<exists>f. load u (resolveModuleFile config) p = Inr f)"
  then have fin: "finite (reachable u config)"
    and ok: "\<forall>p\<in>reachable u config. \<exists>f. load u (resolveModuleFile config) p = Inr f"
    by simp_all
  from gather_complete [OF fin ok] obtain files where g: "gather u config = Some (files, None)"
    by blast
  let ?result = "foldl (processModule u) emptyResult files"
  have paths: "set (map mf_modulePath files) = reachable u config"
    using gather_result(4) [OF g] by simp
  show "\<exists>files result.
          gather u config = Some (files, None)
          \<and> distinct (map mf_modulePath files)
          \<and> set (map mf_modulePath files) = reachable u config
          \<and> buildBdlIr u config = Some (Inr result)
          \<and> dom (modules (ir result)) = reachable u config
          \<and> dom (asts result) = reachable u config"
  proof (intro exI [of _ files] exI [of _ ?result] conjI)
    show "gather u config = Some (files, None)" by (rule g)
    show "distinct (map mf_modulePath files)" by (rule gather_result(1) [OF g])
    show "set (map mf_modulePath files) = reachable u config" by (rule paths)
    show "buildBdlIr u config = Some (Inr ?result)"
      using g by (simp add: buildBdlIr_success)
    show "dom (modules (ir ?result)) = reachable u config"
      unfolding dom_built_modules by (rule paths)
    show "dom (asts ?result) = reachable u config"
      unfolding dom_built_asts by (rule paths)
  qed
qed

text \<open>
  In the example \<open>c\<close> is imported by \<open>a\<close> and by \<open>b\<close> and imports \<open>a\<close> in turn; it is
  yielded once.
\<close>

theorem C1_each_reachable_module_once_witness:
  "reachable ex_collab ex_config = {''a'', ''b'', ''c''}
   \<and> (\<exists>files result.
         gather ex_collab ex_config = Some (files, None)
         \<and> map mf_modulePath files = [''b'', ''c'', ''a'']
         \<and> buildBdlIr ex_collab ex_config = Some (Inr result)
         \<and> dom (modules (ir result)) = {''a'', ''b'', ''c''}
         \<and> dom (asts result) = {''a'', ''b'', ''c''})"
proof -
  from C1_each_reachable_module_once [of ex_collab ex_config, THEN conjunct2, rule_format,
      OF conjI [OF ex_finite ex_loads]]
  obtain files result where
    g: "gather ex_collab ex_config = Some (files, None)" and
    "distinct (map mf_modulePath files)" and
    "set (map mf_modulePath files) = reachable ex_collab ex_config" and
    b: "buildBdlIr ex_collab ex_config = Some (Inr result)" and
    d1: "dom (modules (ir result)) = reachable ex_collab ex_config" and
    d2: "dom (asts result) = reachable ex_collab ex_config"
    by (elim exE conjE) (rule that; assumption)
  from g ex_gather have "files = [ex_file_b, ex_file_c, ex_file_a]"
    by simp
  then have p: "map mf_modulePath files = [''b'', ''c'', ''a'']"
    by (simp add: ex_paths)
  show ?thesis
  proof (intro conjI exI [of _ files] exI [of _ result])
    show "reachable ex_collab ex_config = {''a'', ''b'', ''c''}" by (rule ex_reachable)
    show "gather ex_collab ex_config = Some (files, None)" by (rule g)
    show "map mf_modulePath files = [''b'', ''c'', ''a'']" by (rule p)
    show "buildBdlIr ex_collab ex_config = Some (Inr result)" by (rule b)
    show "dom (modules (ir result)) = {''a'', ''b'', ''c''}" using d1 by (simp only: ex_reachable)
    show "dom (asts result) = {''a'', ''b'', ''c''}" using d2 by (simp only: ex_reachable)
  qed
qed

section \<open>The build is all or nothing\<close>

text \<open>
  C6: when fetching or parsing some reachable module fails, the build returns no
  result; if moreover finitely many module paths are reachable, it returns a failure,
  and that failure is the one raised by fetching or parsing a reachable module. The
  outcome of the build is a failure or a result, never both. When the build returns a
  result, the keys of its syntax-tree map and of its modules map are exactly the
  reachable module paths, and the tree stored for each is the one parsed for it.
\<close>

theorem C6_all_or_nothing:
  "(\<forall>p e. p \<in> reachable u config \<and> load u (resolveModuleFile config) p = Inl e \<longrightarrow>
      (\<forall>result. buildBdlIr u config \<noteq> Some (Inr result))
      \<and> (finite (reachable u config) \<longrightarrow>
           (\<exists>e' q. buildBdlIr u config = Some (Inl e')
              \<and> q \<in> reachable u config \<and> load u (resolveModuleFile config) q = Inl e')))
   \<and> (\<forall>result. buildBdlIr u config = Some (Inr result) \<longrightarrow>
        dom (asts result) = reachable u config
        \<and> dom (modules (ir result)) = reachable u config
        \<and> (\<forall>q\<in>reachable u config.
              \<exists>f. load u (resolveModuleFile config) q = Inr f
                 \<and> asts result q = Some (mf_ast f)))"
proof (intro conjI allI impI)
  fix p e result
  assume pe: "p \<in> reachable u config \<and> load u (resolveModuleFile config) p = Inl e"
  show "buildBdlIr u config \<noteq> Some (Inr result)"
  proof
    assume "buildBdlIr u config = Some (Inr result)"
    then obtain files where g: "gather u config = Some (files, None)"
      by (auto simp: buildBdlIr_success)
    with pe have "p \<in> set (map mf_modulePath files)"
      using gather_result(4) [OF g] by simp
    then obtain f where "f \<in> set files" "mf_modulePath f = p" by auto
    with gather_result(2) [OF g] pe show False by auto
  qed
next
  fix p e
  assume pe: "p \<in> reachable u config \<and> load u (resolveModuleFile config) p = Inl e"
    and fin: "finite (reachable u config)"
  from gather_terminates [OF fin] obtain files err where g: "gather u config = Some (files, err)"
    by (metis surj_pair)
  have "err \<noteq> None"
  proof
    assume "err = None"
    with g have g': "gather u config = Some (files, None)" by simp
    with pe have "p \<in> set (map mf_modulePath files)"
      using gather_result(4) [OF g'] by simp
    then obtain f where "f \<in> set files" "mf_modulePath f = p" by auto
    with gather_result(2) [OF g'] pe show False by auto
  qed
  then obtain e' where e': "err = Some e'" by auto
  from gather_result(5) [OF g e'] obtain q
    where "q \<in> reachable u config" "load u (resolveModuleFile config) q = Inl e'" by blast
  moreover have "buildBdlIr u config = Some (Inl e')"
    using g e' by (auto simp: buildBdlIr_failure)
  ultimately show "\<exists>e' q. buildBdlIr u config = Some (Inl e')
      \<and> q \<in> reachable u config \<and> load u (resolveModuleFile config) q = Inl e'"
    by blast
next
  fix result
  assume "buildBdlIr u config = Some (Inr result)"
  then obtain files where g: "gather u config = Some (files, None)"
    and result: "result = foldl (processModule u) emptyResult files"
    by (auto simp: buildBdlIr_success)
  have paths: "set (map mf_modulePath files) = reachable u config"
    using gather_result(4) [OF g] by simp
  show "dom (asts result) = reachable u config"
    unfolding result dom_built_asts by (rule paths)
  show "dom (modules (ir result)) = reachable u config"
    unfolding result dom_built_modules by (rule paths)
  show "\<forall>q\<in>reachable u config.
      \<exists>f. load u (resolveModuleFile config) q = Inr f \<and> asts result q = Some (mf_ast f)"
  proof
    fix q assume "q \<in> reachable u config"
    with paths have "q \<in> set (map mf_modulePath files)" by simp
    then obtain f where f: "f \<in> set files" "mf_modulePath f = q" by auto
    have "load u (resolveModuleFile config) q = Inr f"
      using gather_result(2) [OF g] f by auto
    moreover have "asts result q = Some (mf_ast f)"
      unfolding result using built_asts_at [OF gather_result(1) [OF g] f(1)] f(2) by simp
    ultimately show "\<exists>f. load u (resolveModuleFile config) q = Inr f
        \<and> asts result q = Some (mf_ast f)" by blast
  qed
qed

text \<open>
  With the entries \<open>d\<close> and \<open>a\<close>, the modules \<open>a\<close> and \<open>c\<close> are built before \<open>d\<close> is
  found missing; the build returns the failure alone.
\<close>

theorem C6_all_or_nothing_witness:
  "''d'' \<in> reachable ex_collab ex_config_missing
   \<and> load ex_collab (resolveModuleFile ex_config_missing) ''d'' = Inl ''module not found''
   \<and> buildBdlIr ex_collab ex_config_missing = Some (Inl ''module not found'')
   \<and> (\<exists>result. buildBdlIr ex_collab ex_config = Some (Inr result)
         \<and> dom (asts result) = {''a'', ''b'', ''c''}
         \<and> dom (modules (ir result)) = {''a'', ''b'', ''c''}
         \<and> asts result ''a'' = Some ex_ast_a)"
proof -
  let ?result = "foldl (processModule ex_collab) emptyResult [ex_file_b, ex_file_c, ex_file_a]"
  have reach: "''d'' \<in> reachable ex_collab ex_config_missing"
    using entries_reachable [of ex_config_missing ex_collab] by (simp add: ex_config_missing_def)
  have fails: "load ex_collab (resolveModuleFile ex_config_missing) ''d'' = Inl ''module not found''"
    by code_simp
  have "gather ex_collab ex_config_missing = Some ([ex_file_a, ex_file_c], Some ''module not found'')"
    by code_simp
  then have outcome: "buildBdlIr ex_collab ex_config_missing = Some (Inl ''module not found'')"
    by (simp add: buildBdlIr_def)
  have never: "\<forall>result. buildBdlIr ex_collab ex_config_missing \<noteq> Some (Inr result)"
    using C6_all_or_nothing [of ex_collab ex_config_missing] reach fails by blast
  have complete:
    "dom (asts ?result) = reachable ex_collab ex_config"
    "dom (modules (ir ?result)) = reachable ex_collab ex_config"
    "\<forall>q\<in>reachable ex_collab ex_config.
        \<exists>f. load ex_collab (resolveModuleFile ex_config) q = Inr f
           \<and> asts ?result q = Some (mf_ast f)"
    using C6_all_or_nothing [of ex_collab ex_config] ex_build by blast+
  from complete(3) have "\<exists>f. load ex_collab (resolveModuleFile ex_config) ''a'' = Inr f
           \<and> asts ?result ''a'' = Some (mf_ast f)"
    by (simp add: ex_reachable)
  then have a: "asts ?result ''a'' = Some ex_ast_a"
    by (auto simp: ex_load(1) ex_file_a_def)
  show ?thesis
  proof (intro conjI exI [of _ ?result])
    show "''d'' \<in> reachable ex_collab ex_config_missing" by (rule reach)
    show "load ex_collab (resolveModuleFile ex_config_missing) ''d'' = Inl ''module not found''"
      by (rule fails)
    show "buildBdlIr ex_collab ex_config_missing = Some (Inl ''module not found'')"
      by (rule outcome)
    show "buildBdlIr ex_collab ex_config = Some (Inr ?result)" by (rule ex_build)
    show "dom (asts ?result) = {''a'', ''b'', ''c''}"
      using complete(1) by (simp only: ex_reachable)
    show "dom (modules (ir ?result)) = {''a'', ''b'', ''c''}"
      using complete(2) by (simp only: ex_reachable)
    show "asts ?result ''a'' = Some ex_ast_a" by (rule a)
  qed
qed

section \<open>Definition paths and the definitions map\<close>

text \<open>
  C7: in the IR of a successful build, every path in the \<^verbatim>\<open>defPaths\<close> of a module of
  the modules map is a key of the definitions map.
\<close>

theorem C7_defPaths_in_defs:
  assumes "buildBdlIr u config = Some (Inr result)"
    and "modules (ir result) modulePath = Some m"
    and "defPath \<in> set (defPaths m)"
  shows "\<exists>d. defs (ir result) defPath = Some d"
proof -
  from assms(1) obtain files where
    result: "result = foldl (processModule u) emptyResult files"
    by (auto simp: buildBdlIr_success)
  from assms(2) obtain f where f: "f \<in> set files" and m: "m = moduleOf u f"
    unfolding result by (blast dest: built_modules_ran)
  from assms(3) m have "defPath \<in> set (map fst (moduleBindings u f))"
    by (simp add: moduleOf_def)
  with f have "defPath \<in> dom (defs (ir result))"
    unfolding result built_defs_dom by blast
  then show ?thesis by blast
qed

theorem C7_defPaths_in_defs_witness:
  "\<exists>result m.
     buildBdlIr ex_collab ex_config = Some (Inr result)
     \<and> modules (ir result) ''a'' = Some m
     \<and> defPaths m = [''a.S'', ''a.S'']
     \<and> (\<exists>d. defs (ir result) ''a.S'' = Some d)"
proof -
  let ?result = "foldl (processModule ex_collab) emptyResult [ex_file_b, ex_file_c, ex_file_a]"
  have p: "defPaths (moduleOf ex_collab ex_file_a) = [''a.S'', ''a.S'']"
    by code_simp
  then have "''a.S'' \<in> set (defPaths (moduleOf ex_collab ex_file_a))"
    by simp
  from C7_defPaths_in_defs [OF ex_build ex_module_a this]
  have "\<exists>d. defs (ir ?result) ''a.S'' = Some d" .
  with ex_build ex_module_a p show ?thesis
    by (intro exI [of _ ?result] exI [of _ "moduleOf ex_collab ex_file_a"] conjI)
qed

text \<open>
  C8: definitions of one module that share a name raise no failure, and the entry of
  the definitions map for their path is the definition built from the last of them in
  declaration order. The build succeeds whenever finitely many module paths are
  reachable and each can be fetched and parsed, whatever the names of the definitions;
  the path of the entry is that of the module, provided no other module writes it (see
  \<open>qualified_path_inject\<close>).
\<close>

theorem C8_last_definition_wins:
  assumes fin: "finite (reachable u config)"
    and ok: "\<forall>p\<in>reachable u config. \<exists>g. load u (resolveModuleFile config) p = Inr g"
    and reach: "modulePath \<in> reachable u config"
    and ld: "load u (resolveModuleFile config) modulePath = Inr f"
    and split: "defStatements (mf_ast f) = pre @ s # post"
    and name: "span u (mf_text f) (the (statementName s)) = name"
    and last: "\<forall>s'\<in>set post. span u (mf_text f) (the (statementName s')) \<noteq> name"
    and others: "\<forall>p\<in>reachable u config. p \<noteq> modulePath \<longrightarrow>
       (\<forall>g. load u (resolveModuleFile config) p = Inr g \<longrightarrow>
          modulePath @ ''.'' @ name \<notin> set (fst (moduleDefs u g Map.empty)))"
  shows "\<exists>result d.
           buildBdlIr u config = Some (Inr result)
           \<and> buildDef u (mf_text f) s (moduleResolver u f) = Some d
           \<and> defs (ir result) (modulePath @ ''.'' @ name) = Some d"
proof -
  let ?K = "modulePath @ ''.'' @ name"
  from gather_complete [OF fin ok] obtain files where g: "gather u config = Some (files, None)"
    by blast
  let ?result = "foldl (processModule u) emptyResult files"
  have build: "buildBdlIr u config = Some (Inr ?result)"
    using g by (simp add: buildBdlIr_success)
  have f: "f \<in> set files" and path: "mf_modulePath f = modulePath"
    using gathered_file [OF g reach ld] by simp_all
  from f obtain fb fa where files: "files = fb @ f # fa"
    by (auto dest: split_list)
  have dist: "distinct (map mf_modulePath files)"
    by (rule gather_result(1) [OF g])
  have later: "?K \<notin> fst ` set (concat (map (moduleBindings u) fa))"
  proof
    assume "?K \<in> fst ` set (concat (map (moduleBindings u) fa))"
    then obtain h where h: "h \<in> set fa" "?K \<in> set (map fst (moduleBindings u h))"
      by auto
    from h(1) files have hf: "h \<in> set files" by simp
    from h(1) dist files path have "mf_modulePath h \<noteq> modulePath"
      by (auto simp: image_iff)
    moreover have "mf_modulePath h \<in> reachable u config"
      using gather_result(3) [OF g] hf by auto
    moreover have "load u (resolveModuleFile config) (mf_modulePath h) = Inr h"
      using gather_result(2) [OF g] hf by auto
    ultimately have "?K \<notin> set (fst (moduleDefs u h Map.empty))"
      using others by blast
    with h(2) show False
      by (simp add: moduleDefs_bindings)
  qed
  from moduleBindings_split [OF split last name] obtain d before after
    where d: "buildDef u (mf_text f) s (moduleResolver u f) = Some d"
      and bind: "moduleBindings u f = before @ (?K, d) # after"
      and after: "?K \<notin> fst ` set after"
    unfolding path by blast
  have cat: "concat (map (moduleBindings u) files)
          = (concat (map (moduleBindings u) fb) @ before) @ (?K, d)
              # (after @ concat (map (moduleBindings u) fa))"
    by (simp add: files bind)
  have "?K \<notin> fst ` set (after @ concat (map (moduleBindings u) fa))"
    using after later by (simp add: image_Un)
  then have "map_of (rev ((concat (map (moduleBindings u) fb) @ before) @ (?K, d)
              # (after @ concat (map (moduleBindings u) fa)))) ?K = Some d"
    by (rule map_of_rev_last)
  then have "map_of (rev (concat (map (moduleBindings u) files))) ?K = Some d"
    by (simp only: cat)
  then have "defs (ir ?result) ?K = Some d"
    by (simp only: built_defs)
  with build d show ?thesis by blast
qed

text \<open>
  Module \<open>a\<close> of the example declares \<open>S\<close> twice; the entry \<open>a.S\<close> is the second struct,
  with the field \<open>g\<close>.
\<close>

theorem C8_last_definition_wins_witness:
  "\<exists>result.
     buildBdlIr ex_collab ex_config = Some (Inr result)
     \<and> defs (ir result) ''a.S'' =
         Some \<lparr>def_attributes = [], def_name = ''S'',
               def_body = StructBody
                 [\<lparr>field_attributes = [], field_name = ''g'',
                   field_itemType = Array (JsString ''int''), field_optional = False\<rparr>]\<rparr>"
proof -
  have reach: "''a'' \<in> reachable ex_collab ex_config"
    by (simp add: ex_reachable)
  have split: "defStatements (mf_ast ex_file_a) =
      [StructStatement ex_struct_a1] @ StructStatement ex_struct_a2 # []"
    by code_simp
  have name: "span ex_collab (mf_text ex_file_a) (the (statementName (StructStatement ex_struct_a2)))
      = ''S''"
    by code_simp
  have last: "\<forall>s'\<in>set []. span ex_collab (mf_text ex_file_a) (the (statementName s')) \<noteq> ''S''"
    by simp
  have others: "\<forall>p\<in>reachable ex_collab ex_config. p \<noteq> ''a'' \<longrightarrow>
       (\<forall>g. load ex_collab (resolveModuleFile ex_config) p = Inr g \<longrightarrow>
          ''a'' @ ''.'' @ ''S'' \<notin> set (fst (moduleDefs ex_collab g Map.empty)))"
    by (simp add: ex_reachable ex_load ex_other_defPaths)
  have built: "buildDef ex_collab (mf_text ex_file_a) (StructStatement ex_struct_a2)
      (moduleResolver ex_collab ex_file_a) =
         Some \<lparr>def_attributes = [], def_name = ''S'',
               def_body = StructBody
                 [\<lparr>field_attributes = [], field_name = ''g'',
                   field_itemType = Array (JsString ''int''), field_optional = False\<rparr>]\<rparr>"
    by code_simp
  from C8_last_definition_wins [OF ex_finite ex_loads reach ex_load(1) split name last others]
  obtain result d where
    b: "buildBdlIr ex_collab ex_config = Some (Inr result)" and
    d: "buildDef ex_collab (mf_text ex_file_a) (StructStatement ex_struct_a2)
          (moduleResolver ex_collab ex_file_a) = Some d" and
    e: "defs (ir result) (''a'' @ ''.'' @ ''S'') = Some d"
    by (elim exE conjE) (rule that; assumption)
  from d built e have "defs (ir result) ''a.S'' =
         Some \<lparr>def_attributes = [], def_name = ''S'',
               def_body = StructBody
                 [\<lparr>field_attributes = [], field_name = ''g'',
                   field_itemType = Array (JsString ''int''), field_optional = False\<rparr>]\<rparr>"
    by simp
  with b show ?thesis
    by (intro exI [of _ result] conjI)
qed

text \<open>
  C10: the \<^verbatim>\<open>defPaths\<close> of a module lists the path of every definition statement of
  the module, in declaration order, duplicates included: a path occurs as many times as
  there are definitions of that name, while the definitions map has one entry for it.
\<close>

theorem C10_defPaths_keeps_duplicates:
  assumes "buildBdlIr u config = Some (Inr result)"
    and "modulePath \<in> reachable u config"
    and "load u (resolveModuleFile config) modulePath = Inr f"
  shows "\<exists>m. modules (ir result) modulePath = Some m
           \<and> defPaths m =
               map (\<lambda>s. modulePath @ ''.'' @ span u (mf_text f) (the (statementName s)))
                 (defStatements (mf_ast f))
           \<and> (\<forall>name. count_list (defPaths m) (modulePath @ ''.'' @ name) =
                 length (filter (\<lambda>s. span u (mf_text f) (the (statementName s)) = name)
                           (defStatements (mf_ast f))))
           \<and> (\<forall>defPath\<in>set (defPaths m). \<exists>d. defs (ir result) defPath = Some d)"
proof -
  from assms(1) obtain files where g: "gather u config = Some (files, None)"
    and result: "result = foldl (processModule u) emptyResult files"
    by (auto simp: buildBdlIr_success)
  have f: "f \<in> set files" and path: "mf_modulePath f = modulePath"
    using gathered_file [OF g assms(2,3)] by simp_all
  have m: "modules (ir result) modulePath = Some (moduleOf u f)"
    unfolding result using built_modules_at [OF gather_result(1) [OF g] f] path by simp
  have dp: "defPaths (moduleOf u f) =
      map (\<lambda>s. modulePath @ ''.'' @ span u (mf_text f) (the (statementName s)))
        (defStatements (mf_ast f))"
    by (simp add: moduleOf_def bindings_statement_names path)
  have "\<forall>defPath\<in>set (defPaths (moduleOf u f)). \<exists>d. defs (ir result) defPath = Some d"
  proof
    fix defPath assume "defPath \<in> set (defPaths (moduleOf u f))"
    then have "defPath \<in> set (map fst (moduleBindings u f))"
      by (simp add: moduleOf_def)
    with f have "defPath \<in> dom (defs (ir result))"
      unfolding result built_defs_dom by blast
    then show "\<exists>d. defs (ir result) defPath = Some d" by blast
  qed
  with m dp show ?thesis
    by (simp add: count_list_paths)
qed

theorem C10_defPaths_keeps_duplicates_witness:
  "\<exists>result m.
     buildBdlIr ex_collab ex_config = Some (Inr result)
     \<and> modules (ir result) ''a'' = Some m
     \<and> defPaths m = [''a.S'', ''a.S'']
     \<and> count_list (defPaths m) ''a.S'' = 2
     \<and> (\<exists>d. defs (ir result) ''a.S'' = Some d)"
proof -
  let ?result = "foldl (processModule ex_collab) emptyResult [ex_file_b, ex_file_c, ex_file_a]"
  have reach: "''a'' \<in> reachable ex_collab ex_config"
    by (simp add: ex_reachable)
  have names: "map (\<lambda>s. ''a'' @ ''.'' @ span ex_collab (mf_text ex_file_a) (the (statementName s)))
      (defStatements (mf_ast ex_file_a)) = [''a.S'', ''a.S'']"
    by code_simp
  from C10_defPaths_keeps_duplicates [OF ex_build reach ex_load(1)]
  obtain m where m: "modules (ir ?result) ''a'' = Some m"
    and p: "defPaths m = map (\<lambda>s. ''a'' @ ''.'' @ span ex_collab (mf_text ex_file_a) (the (statementName s)))
      (defStatements (mf_ast ex_file_a))"
    and d: "\<forall>defPath\<in>set (defPaths m). \<exists>d. defs (ir ?result) defPath = Some d"
    by (elim exE conjE) (rule that; assumption)
  from p have p': "defPaths m = [''a.S'', ''a.S'']"
    by (simp only: names)
  then have c: "count_list (defPaths m) ''a.S'' = 2"
    by simp
  from d p' have e: "\<exists>d. defs (ir ?result) ''a.S'' = Some d"
    by simp
  from ex_build m p' c e show ?thesis
    by (intro exI [of _ ?result] exI [of _ m] conjI)
qed

section \<open>Determinism\<close>

text \<open>
  C9: two builds from the same entry module paths, with capabilities that give the same
  answer at every reachable module path, yield the same module files in the same order
  and return the same outcome: both run for ever, or both return the same failure, or
  both return the same syntax-tree map and the same IR. The maps are written file by
  file, so the keys are added in the same order too.
\<close>

theorem C9_deterministic:
  assumes "entryModulePaths c1 = entryModulePaths c2"
    and "\<forall>p\<in>reachable u c1. resolveModuleFile c1 p = resolveModuleFile c2 p"
  shows "gather u c1 = gather u c2 \<and> buildBdlIr u c1 = buildBdlIr u c2"
  using gather_agree [OF assms] by (simp add: buildBdlIr_def)

text \<open>
  The two capabilities of the example differ at the path \<open>d\<close>, which is not reachable.
\<close>

theorem C9_deterministic_witness:
  "ex_resolve ''d'' \<noteq> ex_resolve_other ''d''
   \<and> gather ex_collab ex_config = gather ex_collab ex_config_other
   \<and> buildBdlIr ex_collab ex_config = buildBdlIr ex_collab ex_config_other"
proof -
  have entries: "entryModulePaths ex_config = entryModulePaths ex_config_other"
    by (simp add: ex_config_def ex_config_other_def)
  have agree: "\<forall>p\<in>reachable ex_collab ex_config.
      resolveModuleFile ex_config p = resolveModuleFile ex_config_other p"
    unfolding ex_reachable
    by (simp add: ex_config_def ex_config_other_def ex_resolve_other_def)
  have differ: "ex_resolve ''d'' \<noteq> ex_resolve_other ''d''"
    by (simp add: ex_resolve_def ex_resolve_other_def)
  from C9_deterministic [OF entries agree] differ show ?thesis
    by (intro conjI) simp_all
qed


end
